theory Spec2Isabelle
  imports Main "HOL-Library.Multiset"
begin

section \<open>Data model of \<open>lotto_analyzer.py\<close>\<close>

text \<open>
  The analysis functions take a pandas DataFrame \<open>df\<close>, the user's list of numbers
  \<open>current_numbers\<close> and the game type, which the program carries as one of two strings.
  A DataFrame is a list of column labels and a list of rows; every row has a value for
  every label of the frame (a frame is rectangular), so a row is a function from labels to
  values and the labels are kept once, in the frame. Cell values are Python integers.
  Reading a label that is not a column raises \<open>KeyError\<close>, and \<open>iloc\<close> outside the frame
  raises \<open>IndexError\<close>; both are values of the model.
\<close>

datatype py_error = KeyError string | IndexError

record series =
  index :: "string list"
  vals :: "string \<Rightarrow> int"

record dataframe =
  columns :: "string list"
  rows :: "(string \<Rightarrow> int) list"

definition SA_DAILY :: string where
  "SA_DAILY = ''SA Daily Lotto (5 Numbers)''"

definition UK_49S :: string where
  "UK_49S = ''UK 49s (6 + Bonus)''"

text \<open>\<open>pd.DataFrame(data, columns=cols)\<close>: a frame from its rows, given as lists.\<close>

definition from_records :: "string list \<Rightarrow> int list list \<Rightarrow> dataframe" where
  "from_records cols data =
     \<lparr>columns = cols,
      rows = map (\<lambda>r c. case map_of (zip cols r) c of Some v \<Rightarrow> v | None \<Rightarrow> 0) data\<rparr>"

definition ebind :: "'e + 'a \<Rightarrow> ('a \<Rightarrow> 'e + 'b) \<Rightarrow> 'e + 'b" where
  "ebind m f = (case m of Inl e \<Rightarrow> Inl e | Inr v \<Rightarrow> f v)"

definition len_df :: "dataframe \<Rightarrow> nat" where
  "len_df df = length (rows df)"

text \<open>\<open>df.iloc[i]\<close> for a non-negative position.\<close>

definition iloc :: "dataframe \<Rightarrow> nat \<Rightarrow> py_error + series" where
  "iloc df i =
     (if i < len_df df then Inr \<lparr>index = columns df, vals = rows df ! i\<rparr>
      else Inl IndexError)"

text \<open>\<open>row[c]\<close> and \<open>c in row\<close> for a row of a frame.\<close>

definition getitem :: "series \<Rightarrow> string \<Rightarrow> py_error + int" where
  "getitem row c = (if c \<in> set (index row) then Inr (vals row c) else Inl (KeyError c))"

definition contains :: "series \<Rightarrow> string \<Rightarrow> bool" where
  "contains row c = (c \<in> set (index row))"

text \<open>The list comprehension \<open>[row[c] for c in labels]\<close>: it stops at the first missing label.\<close>

fun getitems :: "series \<Rightarrow> string list \<Rightarrow> py_error + int list" where
  "getitems row [] = Inr []"
| "getitems row (c # cs) =
     ebind (getitem row c) (\<lambda>v. ebind (getitems row cs) (\<lambda>vs. Inr (v # vs)))"

text \<open>The label \<open>f'N{k}'\<close>; \<open>k\<close> ranges over \<open>range(1, 6)\<close> or \<open>range(1, 7)\<close>, one digit.\<close>

definition fN :: "nat \<Rightarrow> string" where
  "fN k = CHR ''N'' # [''0123456789'' ! k]"

subsection \<open>\<open>collections.Counter\<close>\<close>

text \<open>
  A Counter is a dictionary from keys to integer counts that remembers the order in which
  its keys were first inserted: an association list with distinct keys, oldest first.
  \<open>c[k] += 1\<close> reads a missing key as 0 and appends it.
\<close>

type_synonym 'k counter = "('k \<times> int) list"

fun counter_incr :: "'k \<Rightarrow> 'k counter \<Rightarrow> 'k counter" where
  "counter_incr k [] = [(k, 1)]"
| "counter_incr k ((k', n) # c) =
     (if k = k' then (k', n + 1) # c else (k', n) # counter_incr k c)"

text \<open>\<open>c.update(iterable)\<close> counts the elements of the iterable one by one.\<close>

definition counter_update :: "'k counter \<Rightarrow> 'k list \<Rightarrow> 'k counter" where
  "counter_update c xs = foldl (\<lambda>acc x. counter_incr x acc) c xs"

text \<open>\<open>c[k]\<close> of a Counter: 0 for a missing key.\<close>

definition count_of :: "'k counter \<Rightarrow> 'k \<Rightarrow> int" where
  "count_of c k = (case map_of c k of Some n \<Rightarrow> n | None \<Rightarrow> 0)"

text \<open>
  \<open>c.most_common(n)\<close> is \<open>sorted(c.items(), key=itemgetter(1), reverse=True)[:n]\<close>:
  a stable sort on the count, largest first, equal counts in the order of the items.
\<close>

definition most_common :: "nat \<Rightarrow> 'k counter \<Rightarrow> ('k \<times> int) list" where
  "most_common n c = take n (sort_key (\<lambda>kc. - snd kc) c)"

subsection \<open>Helper functions\<close>

definition get_row_numbers :: "series \<Rightarrow> string \<Rightarrow> py_error + int set" where
  "get_row_numbers row game_type =
     (if game_type = SA_DAILY then
        ebind (getitems row (map fN [1..<6])) (\<lambda>ns. Inr (set ns))
      else
        ebind (getitems row (map fN [1..<7])) (\<lambda>ns.
          if contains row ''Bonus''
          then ebind (getitem row ''Bonus'') (\<lambda>b. Inr (insert b (set ns)))
          else Inr (set ns)))"

definition get_next_numbers_list :: "dataframe \<Rightarrow> nat \<Rightarrow> string \<Rightarrow> py_error + int list" where
  "get_next_numbers_list df i game_type =
     (if i + 1 \<ge> len_df df then Inr []
      else ebind (iloc df (i + 1)) (\<lambda>row.
        if game_type = SA_DAILY
        then ebind (getitems row (map fN [1..<6])) (\<lambda>ns. Inr (sort ns))
        else ebind (getitems row (map fN [1..<7])) (\<lambda>ns. Inr (sort ns))))"

text \<open>A \<open>for\<close> loop whose body may raise: the first error ends the loop.\<close>

fun for_loop :: "('s \<Rightarrow> 'a \<Rightarrow> 'e + 's) \<Rightarrow> 'a list \<Rightarrow> 's \<Rightarrow> 'e + 's" where
  "for_loop body [] s = Inr s"
| "for_loop body (x # xs) s = ebind (body s x) (for_loop body xs)"

text \<open>\<open>range(len(df) - 1)\<close>, empty for a frame of no row or one row.\<close>

definition scan_range :: "dataframe \<Rightarrow> nat list" where
  "scan_range df = [0..<len_df df - 1]"

definition match_threshold :: nat where
  "match_threshold = 3"

subsection \<open>\<open>analyze_patterns\<close>\<close>

text \<open>
  One pass of the loop of \<open>analyze_patterns\<close> on row \<open>i\<close>, from the Counter before the pass
  to the Counter after it. \<open>matches_found\<close> is counted by the source and never read, so it
  is not part of the state. \<open>current_numbers[-1]\<close> is read under the guard
  \<open>len(current_numbers) > 6\<close>, where the list is not empty.
\<close>

definition patterns_body ::
  "dataframe \<Rightarrow> int list \<Rightarrow> string \<Rightarrow> int counter \<Rightarrow> nat \<Rightarrow> py_error + int counter" where
  "patterns_body df current_numbers game_type predictions i =
     ebind (iloc df i) (\<lambda>row.
     ebind (get_row_numbers row game_type) (\<lambda>row_set.
     ebind (if card (set current_numbers \<inter> row_set) \<ge> match_threshold
            then ebind (get_next_numbers_list df i game_type)
                   (\<lambda>nxt. Inr (counter_update predictions nxt))
            else Inr predictions) (\<lambda>predictions1.
       if game_type = UK_49S \<and> length current_numbers > 6 then
         (let bonus = last current_numbers in
          if ''Bonus'' \<in> set (columns df) then
            ebind (iloc df i) (\<lambda>row'.
            ebind (getitem row' ''Bonus'') (\<lambda>b.
              if b = bonus then
                ebind (get_next_numbers_list df i game_type) (\<lambda>nxt1.
                ebind (get_next_numbers_list df i game_type) (\<lambda>nxt2.
                  Inr (counter_update (counter_update predictions1 nxt1) nxt2)))
              else Inr predictions1))
          else Inr predictions1)
       else Inr predictions1)))"

definition analyze_patterns :: "dataframe \<Rightarrow> int list \<Rightarrow> string \<Rightarrow> py_error + int counter" where
  "analyze_patterns df current_numbers game_type =
     for_loop (patterns_body df current_numbers game_type) (scan_range df) []"

subsection \<open>\<open>analyze_splits\<close>\<close>

text \<open>\<open>itertools.combinations(xs, 2)\<close>: the pairs of positions, in lexicographic order.\<close>

fun combinations2 :: "'a list \<Rightarrow> ('a \<times> 'a) list" where
  "combinations2 [] = []"
| "combinations2 (x # xs) = map (Pair x) xs @ combinations2 xs"

type_synonym split_key = "int \<times> int \<times> string"
type_synonym split_stats = "int \<rightharpoonup> split_key counter"

text \<open>The value of \<open>is_match\<close> after lines 99 to 105, for row \<open>i\<close>.\<close>

definition is_match :: "dataframe \<Rightarrow> int list \<Rightarrow> string \<Rightarrow> nat \<Rightarrow> py_error + bool" where
  "is_match df current_numbers game_type i =
     ebind (iloc df i) (\<lambda>row.
     ebind (get_row_numbers row game_type) (\<lambda>row_set.
       let is_match0 = (card (set current_numbers \<inter> row_set) \<ge> match_threshold) in
       if game_type = UK_49S \<and> length current_numbers > 6 then
         if ''Bonus'' \<in> set (columns df) then
           ebind (iloc df i) (\<lambda>row'.
           ebind (getitem row' ''Bonus'') (\<lambda>b.
             if b = last current_numbers then Inr True else Inr is_match0))
         else Inr is_match0
       else Inr is_match0))"

text \<open>\<open>split_stats[t][key] += 1\<close>; \<open>split_stats[t]\<close> raises \<open>KeyError\<close> for a missing target.\<close>

definition stat_incr :: "split_stats \<Rightarrow> int \<Rightarrow> split_key \<Rightarrow> py_error + split_stats" where
  "stat_incr split_stats t key =
     (case split_stats t of
        None \<Rightarrow> Inl (KeyError ''target'')
      | Some c \<Rightarrow> Inr (split_stats(t \<mapsto> counter_incr key c)))"

text \<open>The body of the inner loop over the pairs, for one target and one pair.\<close>

definition pair_body :: "int \<Rightarrow> split_stats \<Rightarrow> int \<times> int \<Rightarrow> py_error + split_stats" where
  "pair_body t split_stats ab =
     (case ab of (a, b) \<Rightarrow>
        ebind (if \<bar>a - b\<bar> = t then stat_incr split_stats t (a, b, ''Diff'')
               else Inr split_stats) (\<lambda>s1.
          if a + b = t then stat_incr s1 t (a, b, ''Sum'') else Inr s1))"

definition target_body :: "(int \<times> int) list \<Rightarrow> split_stats \<Rightarrow> int \<Rightarrow> py_error + split_stats" where
  "target_body next_pairs split_stats t = for_loop (pair_body t) next_pairs split_stats"

definition splits_body ::
  "dataframe \<Rightarrow> int list \<Rightarrow> int list \<Rightarrow> string \<Rightarrow> split_stats \<Rightarrow> nat \<Rightarrow> py_error + split_stats" where
  "splits_body df current_numbers top_targets game_type split_stats i =
     ebind (is_match df current_numbers game_type i) (\<lambda>m.
       if m then
         ebind (get_next_numbers_list df i game_type) (\<lambda>next_nums.
           let next_pairs = combinations2 next_nums in
           for_loop (target_body next_pairs) top_targets split_stats)
       else Inr split_stats)"

text \<open>\<open>{t: Counter() for t in top_targets}\<close>\<close>

definition init_stats :: "int list \<Rightarrow> split_stats" where
  "init_stats top_targets = map_of (map (\<lambda>t. (t, [])) top_targets)"

definition analyze_splits ::
  "dataframe \<Rightarrow> int list \<Rightarrow> int list \<Rightarrow> string \<Rightarrow> py_error + split_stats" where
  "analyze_splits df current_numbers top_targets game_type =
     for_loop (splits_body df current_numbers top_targets game_type) (scan_range df)
       (init_stats top_targets)"

subsection \<open>The reference flow\<close>

text \<open>Line 152: \<open>[n for n, c in raw_predictions.most_common(7)]\<close>.\<close>

definition top_targets_of :: "int counter \<Rightarrow> int list" where
  "top_targets_of raw_predictions = map fst (most_common 7 raw_predictions)"

text \<open>Line 173: \<open>split_data[target].most_common(3)\<close>.\<close>

definition splits_of :: "split_stats \<Rightarrow> int \<Rightarrow> py_error + (split_key \<times> int) list" where
  "splits_of split_data target =
     (case split_data target of
        None \<Rightarrow> Inl (KeyError ''target'')
      | Some c \<Rightarrow> Inr (most_common 3 c))"

subsection \<open>Vocabulary of the statements\<close>

text \<open>
  The labels both helper functions read, the frames that have them, and the two tests of
  the loops written on the cells of row \<open>i\<close>; the lemmas below tie them to the code.
\<close>

definition primary_labels :: "string \<Rightarrow> string list" where
  "primary_labels game_type = map fN (if game_type = SA_DAILY then [1..<6] else [1..<7])"

definition has_cols :: "dataframe \<Rightarrow> string \<Rightarrow> bool" where
  "has_cols df game_type = (set (primary_labels game_type) \<subseteq> set (columns df))"

definition positive_counts :: "'k counter \<Rightarrow> bool" where
  "positive_counts c = list_all (\<lambda>kc. 0 < snd kc) c"

definition draw_set :: "dataframe \<Rightarrow> string \<Rightarrow> nat \<Rightarrow> int set" where
  "draw_set df game_type i =
     set (map (rows df ! i) (primary_labels game_type)) \<union>
     (if game_type \<noteq> SA_DAILY \<and> ''Bonus'' \<in> set (columns df) then {(rows df ! i) ''Bonus''} else {})"

definition inter_fires :: "dataframe \<Rightarrow> int list \<Rightarrow> string \<Rightarrow> nat \<Rightarrow> bool" where
  "inter_fires df current_numbers game_type i =
     (match_threshold \<le> card (set current_numbers \<inter> draw_set df game_type i))"

definition bonus_fires :: "dataframe \<Rightarrow> int list \<Rightarrow> string \<Rightarrow> nat \<Rightarrow> bool" where
  "bonus_fires df current_numbers game_type i =
     (game_type = UK_49S \<and> 6 < length current_numbers \<and> ''Bonus'' \<in> set (columns df)
        \<and> (rows df ! i) ''Bonus'' = last current_numbers)"

text \<open>
  The weight of row \<open>i\<close> in \<open>analyze_patterns\<close> (1 for the intersection test plus 2 for the
  bonus test) and the sorted primary numbers of the draw after row \<open>i\<close>.
\<close>

definition row_weight :: "dataframe \<Rightarrow> int list \<Rightarrow> string \<Rightarrow> nat \<Rightarrow> int" where
  "row_weight df current_numbers game_type i =
     (if inter_fires df current_numbers game_type i then 1 else 0) +
     (if bonus_fires df current_numbers game_type i then 2 else 0)"

definition next_nums :: "dataframe \<Rightarrow> string \<Rightarrow> nat \<Rightarrow> int list" where
  "next_nums df game_type i = sort (map (rows df ! (i + 1)) (primary_labels game_type))"

text \<open>
  For \<open>analyze_splits\<close>: how often a list of pairs registers a key under a target, the
  count and the presence of a key under a target in the returned dictionary, Counters with
  positive counts only, the rows that qualify and what a row adds to a count.
\<close>

definition pair_hits :: "(int \<times> int) list \<Rightarrow> int \<Rightarrow> split_key \<Rightarrow> int" where
  "pair_hits pairs t key =
     (case key of (a, b, r) \<Rightarrow>
        (if r = ''Diff'' \<and> \<bar>a - b\<bar> = t then int (count_list pairs (a, b)) else 0) +
        (if r = ''Sum'' \<and> a + b = t then int (count_list pairs (a, b)) else 0))"

definition stat_count :: "split_stats \<Rightarrow> int \<Rightarrow> split_key \<Rightarrow> int" where
  "stat_count m t key = (case m t of None \<Rightarrow> 0 | Some c \<Rightarrow> count_of c key)"

definition reported :: "split_stats \<Rightarrow> int \<Rightarrow> split_key \<Rightarrow> bool" where
  "reported m t key = (case m t of None \<Rightarrow> False | Some c \<Rightarrow> key \<in> set (map fst c))"

definition all_positive :: "split_stats \<Rightarrow> bool" where
  "all_positive m = (\<forall>t c. m t = Some c \<longrightarrow> positive_counts c)"

definition row_matches :: "dataframe \<Rightarrow> int list \<Rightarrow> string \<Rightarrow> nat \<Rightarrow> bool" where
  "row_matches df current_numbers game_type i =
     (inter_fires df current_numbers game_type i \<or> bonus_fires df current_numbers game_type i)"

definition row_hits ::
  "dataframe \<Rightarrow> int list \<Rightarrow> int list \<Rightarrow> string \<Rightarrow> nat \<Rightarrow> int \<Rightarrow> split_key \<Rightarrow> int" where
  "row_hits df current_numbers top_targets game_type i t key =
     (if row_matches df current_numbers game_type i
      then int (count_list top_targets t) *
             pair_hits (combinations2 (next_nums df game_type i)) t key
      else 0)"

text \<open>A five-number history of no row.\<close>

definition df0 :: dataframe where
  "df0 = from_records [''N1'', ''N2'', ''N3'', ''N4'', ''N5''] []"

text \<open>A six-number history whose frame has no column \<open>Bonus\<close>.\<close>

definition dfN :: dataframe where
  "dfN = from_records [''N1'', ''N2'', ''N3'', ''N4'', ''N5'', ''N6'']
           [[1, 2, 3, 4, 5, 6], [8, 9, 10, 11, 12, 13], [15, 16, 17, 18, 19, 20]]"

text \<open>
  The keys of a stream in the order of their first occurrence, and the two streams of the
  scans: the numbers \<open>analyze_patterns\<close> passes to \<open>update\<close> (the next draw of every
  qualifying row, in row order) and the keys \<open>analyze_splits\<close> increments under a target
  (for every qualifying row, the pairs of the next draw in the order of
  \<open>combinations\<close>, \<open>Diff\<close> before \<open>Sum\<close>).
\<close>

fun first_seen_from :: "'k list \<Rightarrow> 'k list \<Rightarrow> 'k list" where
  "first_seen_from ks [] = ks"
| "first_seen_from ks (x # xs) = first_seen_from (if x \<in> set ks then ks else ks @ [x]) xs"

definition first_seen :: "'k list \<Rightarrow> 'k list" where
  "first_seen xs = first_seen_from [] xs"

definition seen_numbers :: "dataframe \<Rightarrow> int list \<Rightarrow> string \<Rightarrow> int list" where
  "seen_numbers df current_numbers game_type =
     concat (map (\<lambda>i. if row_matches df current_numbers game_type i
                       then next_nums df game_type i else []) (scan_range df))"

definition pair_keys :: "int \<Rightarrow> (int \<times> int) list \<Rightarrow> split_key list" where
  "pair_keys t pairs =
     concat (map (\<lambda>ab. case ab of (a, b) \<Rightarrow>
        (if \<bar>a - b\<bar> = t then [(a, b, ''Diff'')] else []) @
        (if a + b = t then [(a, b, ''Sum'')] else [])) pairs)"

definition seen_keys :: "dataframe \<Rightarrow> int list \<Rightarrow> string \<Rightarrow> int \<Rightarrow> split_key list" where
  "seen_keys df current_numbers game_type t =
     concat (map (\<lambda>i. if row_matches df current_numbers game_type i
                       then pair_keys t (combinations2 (next_nums df game_type i)) else [])
       (scan_range df))"

subsection \<open>The scenario of the specification\<close>

definition df4 :: dataframe where
  "df4 = from_records [''N1'', ''N2'', ''N3'', ''N4'', ''N5'']
           [[1, 2, 3, 4, 5], [2, 3, 4, 5, 6], [3, 4, 5, 6, 7]]"

text \<open>A history of the six-plus-bonus game and a current draw with a bonus.\<close>

definition dfB :: dataframe where
  "dfB = from_records [''N1'', ''N2'', ''N3'', ''N4'', ''N5'', ''N6'', ''Bonus'']
           [[1, 2, 3, 4, 5, 6, 7], [8, 9, 10, 11, 12, 13, 14], [15, 16, 17, 18, 19, 20, 21]]"

definition curB :: "int list" where
  "curB = [1, 2, 3, 30, 31, 32, 7]"

section \<open>Basic facts\<close>

lemma game_types_differ: "UK_49S \<noteq> SA_DAILY"
  by (simp add: UK_49S_def SA_DAILY_def)

lemma ebind_Inr [simp]: "ebind (Inr v) f = f v"
  by (simp add: ebind_def)

lemma ebind_Inl [simp]: "ebind (Inl e) f = Inl e"
  by (simp add: ebind_def)

lemma getitems_ok: "set cs \<subseteq> set (index row) \<Longrightarrow> getitems row cs = Inr (map (vals row) cs)"
  by (induction cs) (simp_all add: getitem_def)

lemma scan_range_lt: "i \<in> set (scan_range df) \<Longrightarrow> i < len_df df \<and> Suc i < len_df df"
  by (auto simp: scan_range_def)

lemma iloc_ok: "i < len_df df \<Longrightarrow> iloc df i = Inr \<lparr>index = columns df, vals = rows df ! i\<rparr>"
  by (simp add: iloc_def)

lemma get_row_numbers_ok:
  assumes "has_cols df game_type"
  shows "get_row_numbers \<lparr>index = columns df, vals = r\<rparr> game_type =
           Inr (set (map r (primary_labels game_type)) \<union>
                (if game_type \<noteq> SA_DAILY \<and> ''Bonus'' \<in> set (columns df) then {r ''Bonus''} else {}))"
  using assms
  by (auto simp: get_row_numbers_def has_cols_def primary_labels_def getitems_ok contains_def getitem_def)

lemma get_next_numbers_list_ok:
  assumes "has_cols df game_type"
  shows "get_next_numbers_list df i game_type =
           Inr (if i + 1 \<ge> len_df df then [] else sort (map (rows df ! (i + 1)) (primary_labels game_type)))"
  using assms
  by (auto simp: get_next_numbers_list_def has_cols_def primary_labels_def getitems_ok iloc_ok)

lemma count_of_incr: "count_of (counter_incr k c) k' = count_of c k' + (if k' = k then 1 else 0)"
  by (induction c) (auto simp: count_of_def)

lemma count_of_update: "count_of (counter_update c xs) k = count_of c k + int (count_list xs k)"
  by (induction xs arbitrary: c) (auto simp: counter_update_def count_of_incr)

lemma keys_order_incr:
  "map fst (counter_incr k c) = (if k \<in> set (map fst c) then map fst c else map fst c @ [k])"
  by (induction k c rule: counter_incr.induct) auto

lemma keys_incr: "set (map fst (counter_incr k c)) = insert k (set (map fst c))"
  by (auto simp: keys_order_incr)

lemma positive_incr: "positive_counts c \<Longrightarrow> positive_counts (counter_incr k c)"
  by (induction c) (auto simp: positive_counts_def)

lemma key_iff_positive:
  "positive_counts c \<Longrightarrow> k \<in> set (map fst c) \<longleftrightarrow> 0 < count_of c k"
proof (induction c)
  case Nil
  then show ?case by (simp add: count_of_def)
next
  case (Cons x c)
  then show ?case by (cases x) (auto simp: count_of_def positive_counts_def)
qed

lemma for_loop_inv:
  assumes "I s" and "\<And>s x. x \<in> set xs \<Longrightarrow> I s \<Longrightarrow> \<exists>s'. body s x = Inr s' \<and> I s'"
  shows "\<exists>s'. for_loop body xs s = Inr s' \<and> I s'"
  using assms
proof (induction xs arbitrary: s)
  case Nil
  then show ?case by simp
next
  case (Cons x xs)
  from Cons.prems obtain s1 where s1: "body s x = Inr s1" "I s1"
    by (meson list.set_intros(1))
  have "\<exists>s'. for_loop body xs s1 = Inr s' \<and> I s'"
    by (rule Cons.IH [OF s1(2)]) (simp add: Cons.prems(2))
  with s1 show ?case by simp
qed

lemma primary_labels_nonempty: "primary_labels game_type \<noteq> []"
  by (simp add: primary_labels_def)

lemma next_nonempty:
  assumes "has_cols df game_type" and "i \<in> set (scan_range df)"
  shows "\<exists>nxt. get_next_numbers_list df i game_type = Inr nxt \<and> nxt \<noteq> []"
proof -
  have lt: "\<not> len_df df \<le> i + 1" using scan_range_lt [OF assms(2)] by simp
  let ?n = "sort (map (rows df ! (i + 1)) (primary_labels game_type))"
  have eq: "get_next_numbers_list df i game_type = Inr ?n"
    using lt by (simp only: get_next_numbers_list_ok [OF assms(1)] if_False)
  have "length ?n = length (primary_labels game_type)" by simp
  moreover have "length (primary_labels game_type) \<noteq> 0"
    using primary_labels_nonempty [of game_type] by simp
  ultimately have "?n \<noteq> []" by (metis length_0_conv)
  with eq show ?thesis by blast
qed

lemma row_set_ok:
  assumes "has_cols df game_type" and "i < len_df df"
  shows "ebind (iloc df i) (\<lambda>row. get_row_numbers row game_type) = Inr (draw_set df game_type i)"
  using assms(2) by (simp add: iloc_ok get_row_numbers_ok [OF assms(1)] draw_set_def)

lemma bonus_test_ok:
  assumes "i < len_df df" and "''Bonus'' \<in> set (columns df)"
  shows "ebind (iloc df i) (\<lambda>row. getitem row ''Bonus'') = Inr ((rows df ! i) ''Bonus'')"
  using assms by (simp add: iloc_ok getitem_def)

lemma patterns_body_ok:
  assumes "has_cols df game_type" and "i < len_df df"
    and "get_next_numbers_list df i game_type = Inr nxt"
  shows "patterns_body df current_numbers game_type predictions i =
    Inr (if bonus_fires df current_numbers game_type i
         then counter_update (counter_update
                (if inter_fires df current_numbers game_type i
                 then counter_update predictions nxt else predictions) nxt) nxt
         else (if inter_fires df current_numbers game_type i
               then counter_update predictions nxt else predictions))"
proof -
  have rs: "get_row_numbers \<lparr>index = columns df, vals = rows df ! i\<rparr> game_type
              = Inr (draw_set df game_type i)"
    by (simp add: get_row_numbers_ok [OF assms(1)] draw_set_def)
  have rsU: "game_type = UK_49S \<Longrightarrow>
      get_row_numbers \<lparr>index = columns df, vals = rows df ! i\<rparr> UK_49S
              = Inr (draw_set df UK_49S i)"
    using rs by simp
  have nxU: "game_type = UK_49S \<Longrightarrow> get_next_numbers_list df i UK_49S = Inr nxt"
    using assms(3) by simp
  show ?thesis
    unfolding patterns_body_def bonus_fires_def inter_fires_def
    by (simp add: iloc_ok [OF assms(2)] rs rsU nxU assms(3) getitem_def Let_def)
qed

lemma is_match_ok:
  assumes "has_cols df game_type" and "i < len_df df"
  shows "is_match df current_numbers game_type i =
    Inr (inter_fires df current_numbers game_type i \<or> bonus_fires df current_numbers game_type i)"
proof -
  have rs: "get_row_numbers \<lparr>index = columns df, vals = rows df ! i\<rparr> game_type
              = Inr (draw_set df game_type i)"
    by (simp add: get_row_numbers_ok [OF assms(1)] draw_set_def)
  have rsU: "game_type = UK_49S \<Longrightarrow>
      get_row_numbers \<lparr>index = columns df, vals = rows df ! i\<rparr> UK_49S
              = Inr (draw_set df UK_49S i)"
    using rs by simp
  show ?thesis
    unfolding is_match_def bonus_fires_def inter_fires_def
    by (auto simp: iloc_ok [OF assms(2)] rs rsU getitem_def Let_def)
qed

section \<open>The concrete scenario\<close>

text \<open>
  C4. On the five-number history \<open>{1,2,3,4,5}\<close>, \<open>{2,3,4,5,6}\<close>, \<open>{3,4,5,6,7}\<close> and the
  current draw \<open>[2,3,4,5,9]\<close>, \<open>analyze_patterns\<close> returns the Counter
  \<open>{2:1, 3:2, 4:2, 5:2, 6:2, 7:1}\<close>; the loop visits rows 0 and 1 only, so the last row
  is never scanned.
\<close>

theorem scenario_predict:
  "analyze_patterns df4 [2, 3, 4, 5, 9] SA_DAILY
     = Inr [(2, 1), (3, 2), (4, 2), (5, 2), (6, 2), (7, 1)]
   \<and> scan_range df4 = [0, 1]"
  by code_simp

section \<open>The matching rule\<close>

text \<open>
  C1. For a frame that has the primary columns and a row \<open>i\<close> of it, \<open>get_row_numbers\<close> returns
  the set of the row's primary numbers, with the bonus number added when the game is not the
  five-number game and the row has a bonus; and \<open>is_match\<close> of \<open>analyze_splits\<close> holds exactly
  when that set and the set of \<open>current_numbers\<close> share at least 3 numbers, or the game is
  UK 49s, \<open>current_numbers\<close> has more than 6 elements and the row's bonus number is its last
  element. Nothing else enters the decision.
\<close>

theorem matching_rule:
  assumes "has_cols df game_type" and "i < len_df df"
  shows "\<exists>row row_set.
     iloc df i = Inr row \<and> get_row_numbers row game_type = Inr row_set \<and>
     row_set = set (map (vals row) (primary_labels game_type)) \<union>
        (if game_type \<noteq> SA_DAILY \<and> contains row ''Bonus'' then {vals row ''Bonus''} else {}) \<and>
     is_match df current_numbers game_type i =
       Inr (match_threshold \<le> card (row_set \<inter> set current_numbers) \<or>
            (game_type = UK_49S \<and> 6 < length current_numbers \<and>
             getitem row ''Bonus'' = Inr (last current_numbers)))"
proof -
  let ?row = "\<lparr>index = columns df, vals = rows df ! i\<rparr>"
  have a: "iloc df i = Inr ?row" by (rule iloc_ok [OF assms(2)])
  have b: "get_row_numbers ?row game_type = Inr (draw_set df game_type i)"
    by (simp add: get_row_numbers_ok [OF assms(1)] draw_set_def)
  have c: "draw_set df game_type i = set (map (vals ?row) (primary_labels game_type)) \<union>
        (if game_type \<noteq> SA_DAILY \<and> contains ?row ''Bonus'' then {vals ?row ''Bonus''} else {})"
    by (simp add: draw_set_def contains_def)
  have d: "is_match df current_numbers game_type i =
       Inr (match_threshold \<le> card (draw_set df game_type i \<inter> set current_numbers) \<or>
            (game_type = UK_49S \<and> 6 < length current_numbers \<and>
             getitem ?row ''Bonus'' = Inr (last current_numbers)))"
    by (auto simp: is_match_ok [OF assms] inter_fires_def bonus_fires_def getitem_def Int_commute)
  from a b c d show ?thesis by blast
qed

theorem matching_rule_witness:
  "has_cols dfB UK_49S \<and> 0 < len_df dfB \<and>
   is_match dfB [30, 31, 32, 33, 34, 35, 7] UK_49S 0 = Inr True \<and>
   is_match dfB [1, 2, 3, 33, 34, 35, 36] UK_49S 0 = Inr True \<and>
   is_match dfB [1, 2, 33, 34, 35, 36, 37] UK_49S 0 = Inr False \<and>
   (\<exists>row row_set.
     iloc dfB 0 = Inr row \<and> get_row_numbers row UK_49S = Inr row_set \<and>
     row_set = set (map (vals row) (primary_labels UK_49S)) \<union>
        (if UK_49S \<noteq> SA_DAILY \<and> contains row ''Bonus'' then {vals row ''Bonus''} else {}) \<and>
     is_match dfB curB UK_49S 0 =
       Inr (match_threshold \<le> card (row_set \<inter> set curB) \<or>
            (UK_49S = UK_49S \<and> 6 < length curB \<and>
             getitem row ''Bonus'' = Inr (last curB))))"
proof -
  have h1: "has_cols dfB UK_49S" by code_simp
  have h2: "0 < len_df dfB" by code_simp
  have e1: "is_match dfB [30, 31, 32, 33, 34, 35, 7] UK_49S 0 = Inr True" by code_simp
  have e2: "is_match dfB [1, 2, 3, 33, 34, 35, 36] UK_49S 0 = Inr True" by code_simp
  have e3: "is_match dfB [1, 2, 33, 34, 35, 36, 37] UK_49S 0 = Inr False" by code_simp
  from matching_rule [OF h1 h2, of curB] h1 h2 e1 e2 e3 show ?thesis by blast
qed

section \<open>Weights in \<open>analyze_patterns\<close>\<close>

lemma next_nums_ok:
  assumes "has_cols df game_type" and "i \<in> set (scan_range df)"
  shows "get_next_numbers_list df i game_type = Inr (next_nums df game_type i)"
proof -
  have lt: "\<not> len_df df \<le> i + 1" using scan_range_lt [OF assms(2)] by simp
  show ?thesis
    using lt by (simp only: get_next_numbers_list_ok [OF assms(1)] if_False next_nums_def)
qed

lemma patterns_body_weight:
  assumes "has_cols df game_type" and "i \<in> set (scan_range df)"
  shows "\<exists>p'. patterns_body df current_numbers game_type p i = Inr p' \<and>
     (\<forall>n. count_of p' n = count_of p n +
        row_weight df current_numbers game_type i * int (count_list (next_nums df game_type i) n))"
proof -
  have lt: "i < len_df df" using scan_range_lt [OF assms(2)] by simp
  note pb = patterns_body_ok [OF assms(1) lt next_nums_ok [OF assms], of current_numbers p]
  show ?thesis
    unfolding pb row_weight_def
    by (simp add: count_of_update)
qed

lemma patterns_loop:
  assumes "has_cols df game_type" and "set xs \<subseteq> set (scan_range df)"
  shows "\<exists>p'. for_loop (patterns_body df current_numbers game_type) xs p = Inr p' \<and>
     (\<forall>n. count_of p' n = count_of p n +
        sum_list (map (\<lambda>i. row_weight df current_numbers game_type i *
                            int (count_list (next_nums df game_type i) n)) xs))"
  using assms(2)
proof (induction xs arbitrary: p)
  case Nil
  then show ?case by simp
next
  case (Cons i xs)
  have i: "i \<in> set (scan_range df)" and sub: "set xs \<subseteq> set (scan_range df)"
    using Cons.prems by auto
  from patterns_body_weight [OF assms(1) i, of current_numbers p] obtain p1 where
    p1: "patterns_body df current_numbers game_type p i = Inr p1"
        "\<forall>n. count_of p1 n = count_of p n +
          row_weight df current_numbers game_type i * int (count_list (next_nums df game_type i) n)"
    by blast
  from Cons.IH [OF sub, of p1] obtain p' where
    p': "for_loop (patterns_body df current_numbers game_type) xs p1 = Inr p'"
        "\<forall>n. count_of p' n = count_of p1 n +
          sum_list (map (\<lambda>i. row_weight df current_numbers game_type i *
                            int (count_list (next_nums df game_type i) n)) xs)"
    by blast
  have run: "for_loop (patterns_body df current_numbers game_type) (i # xs) p = Inr p'"
    using p1(1) p'(1) by simp
  have cnt: "count_of p' n = count_of p n +
        sum_list (map (\<lambda>i. row_weight df current_numbers game_type i *
                            int (count_list (next_nums df game_type i) n)) (i # xs))" for n
    using p1(2) [rule_format, of n] p'(2) [rule_format, of n] by simp
  from run cnt show ?case by blast
qed

lemma row_weight_code:
  assumes "has_cols df game_type" and "i \<in> set (scan_range df)"
  shows "\<exists>row row_set.
     iloc df i = Inr row \<and> get_row_numbers row game_type = Inr row_set \<and>
     get_next_numbers_list df i game_type = Inr (next_nums df game_type i) \<and>
     row_weight df current_numbers game_type i =
        (if match_threshold \<le> card (set current_numbers \<inter> row_set) then 1 else 0) +
        (if game_type = UK_49S \<and> 6 < length current_numbers \<and>
            getitem row ''Bonus'' = Inr (last current_numbers) then 2 else 0)"
proof -
  have lt: "i < len_df df" using scan_range_lt [OF assms(2)] by simp
  let ?row = "\<lparr>index = columns df, vals = rows df ! i\<rparr>"
  have a: "iloc df i = Inr ?row" by (rule iloc_ok [OF lt])
  have b: "get_row_numbers ?row game_type = Inr (draw_set df game_type i)"
    by (simp add: get_row_numbers_ok [OF assms(1)] draw_set_def)
  have bf: "bonus_fires df current_numbers game_type i \<longleftrightarrow>
      (game_type = UK_49S \<and> 6 < length current_numbers \<and>
             getitem ?row ''Bonus'' = Inr (last current_numbers))"
    by (auto simp: bonus_fires_def getitem_def)
  have c: "row_weight df current_numbers game_type i =
        (if match_threshold \<le> card (set current_numbers \<inter> draw_set df game_type i) then 1 else 0) +
        (if game_type = UK_49S \<and> 6 < length current_numbers \<and>
            getitem ?row ''Bonus'' = Inr (last current_numbers) then 2 else 0)"
    unfolding row_weight_def bf inter_fires_def by (rule refl)
  from a b c next_nums_ok [OF assms] show ?thesis by blast
qed

text \<open>
  C2. For a frame that has the primary columns, \<open>analyze_patterns\<close> returns a Counter (it does
  not raise) in which the count of every number \<open>n\<close> is the sum, over the rows \<open>i\<close> of the scan
  range \<open>[0, length - 2]\<close>, of the weight of row \<open>i\<close> times the number of occurrences of \<open>n\<close> in
  the list \<open>get_next_numbers_list\<close> returns for \<open>i\<close>. The weight of a row is 1 if the
  intersection test holds for it, plus 2 if the bonus test holds: 1, 2 or 3 (0 when neither
  holds). The two tests are evaluated independently and their contributions add.
\<close>

theorem predict_weights:
  assumes "has_cols df game_type"
  shows "\<exists>predictions.
     analyze_patterns df current_numbers game_type = Inr predictions \<and>
     (\<forall>n. count_of predictions n =
        sum_list (map (\<lambda>i. row_weight df current_numbers game_type i *
                            int (count_list (next_nums df game_type i) n)) (scan_range df))) \<and>
     (\<forall>i \<in> set (scan_range df). \<exists>row row_set.
        iloc df i = Inr row \<and> get_row_numbers row game_type = Inr row_set \<and>
        get_next_numbers_list df i game_type = Inr (next_nums df game_type i) \<and>
        row_weight df current_numbers game_type i =
          (if match_threshold \<le> card (set current_numbers \<inter> row_set) then 1 else 0) +
          (if game_type = UK_49S \<and> 6 < length current_numbers \<and>
              getitem row ''Bonus'' = Inr (last current_numbers) then 2 else 0))"
proof -
  from patterns_loop [OF assms subset_refl, of current_numbers "[]"] obtain p where
    p: "analyze_patterns df current_numbers game_type = Inr p"
       "\<forall>n. count_of p n = count_of [] n +
          sum_list (map (\<lambda>i. row_weight df current_numbers game_type i *
                            int (count_list (next_nums df game_type i) n)) (scan_range df))"
    unfolding analyze_patterns_def by blast
  have z: "count_of ([] :: int counter) n = 0" for n by (simp add: count_of_def)
  have cnt: "\<forall>n. count_of p n =
        sum_list (map (\<lambda>i. row_weight df current_numbers game_type i *
                            int (count_list (next_nums df game_type i) n)) (scan_range df))"
    using p(2) by (simp add: z)
  have rows: "\<forall>i \<in> set (scan_range df). \<exists>row row_set.
        iloc df i = Inr row \<and> get_row_numbers row game_type = Inr row_set \<and>
        get_next_numbers_list df i game_type = Inr (next_nums df game_type i) \<and>
        row_weight df current_numbers game_type i =
          (if match_threshold \<le> card (set current_numbers \<inter> row_set) then 1 else 0) +
          (if game_type = UK_49S \<and> 6 < length current_numbers \<and>
              getitem row ''Bonus'' = Inr (last current_numbers) then 2 else 0)"
    using row_weight_code [OF assms] by blast
  from p(1) cnt rows show ?thesis by blast
qed

theorem predict_weights_witness:
  "has_cols dfB UK_49S \<and>
   analyze_patterns dfB [1, 2, 3, 33, 34, 35, 36] UK_49S
     = Inr [(8, 1), (9, 1), (10, 1), (11, 1), (12, 1), (13, 1)] \<and>
   analyze_patterns dfB [30, 31, 32, 33, 34, 35, 7] UK_49S
     = Inr [(8, 2), (9, 2), (10, 2), (11, 2), (12, 2), (13, 2)] \<and>
   analyze_patterns dfB curB UK_49S
     = Inr [(8, 3), (9, 3), (10, 3), (11, 3), (12, 3), (13, 3)] \<and>
   (\<exists>predictions.
     analyze_patterns dfB curB UK_49S = Inr predictions \<and>
     (\<forall>n. count_of predictions n =
        sum_list (map (\<lambda>i. row_weight dfB curB UK_49S i *
                            int (count_list (next_nums dfB UK_49S i) n)) (scan_range dfB))) \<and>
     (\<forall>i \<in> set (scan_range dfB). \<exists>row row_set.
        iloc dfB i = Inr row \<and> get_row_numbers row UK_49S = Inr row_set \<and>
        get_next_numbers_list dfB i UK_49S = Inr (next_nums dfB UK_49S i) \<and>
        row_weight dfB curB UK_49S i =
          (if match_threshold \<le> card (set curB \<inter> row_set) then 1 else 0) +
          (if UK_49S = UK_49S \<and> 6 < length curB \<and>
              getitem row ''Bonus'' = Inr (last curB) then 2 else 0)))"
proof -
  have h1: "has_cols dfB UK_49S" by code_simp
  have e1: "analyze_patterns dfB [1, 2, 3, 33, 34, 35, 36] UK_49S
     = Inr [(8, 1), (9, 1), (10, 1), (11, 1), (12, 1), (13, 1)]" by code_simp
  have e2: "analyze_patterns dfB [30, 31, 32, 33, 34, 35, 7] UK_49S
     = Inr [(8, 2), (9, 2), (10, 2), (11, 2), (12, 2), (13, 2)]" by code_simp
  have e3: "analyze_patterns dfB curB UK_49S
     = Inr [(8, 3), (9, 3), (10, 3), (11, 3), (12, 3), (13, 3)]" by code_simp
  from predict_weights [OF h1, of curB] h1 e1 e2 e3 show ?thesis by blast
qed

section \<open>One rule in both stages\<close>

text \<open>
  C8. For a row \<open>i\<close> of the scan range, \<open>is_match\<close> of \<open>analyze_splits\<close> holds if and only if the
  pass of \<open>analyze_patterns\<close> over the same row changes a count; and then it raises the count of
  every number of the next draw, which is not empty.
\<close>

theorem same_matching_rule:
  assumes "has_cols df game_type" and "i \<in> set (scan_range df)"
  shows "\<exists>b predictions' nxt.
     is_match df current_numbers game_type i = Inr b \<and>
     patterns_body df current_numbers game_type predictions i = Inr predictions' \<and>
     get_next_numbers_list df i game_type = Inr nxt \<and> nxt \<noteq> [] \<and>
     (b \<longleftrightarrow> (\<exists>n. count_of predictions' n \<noteq> count_of predictions n)) \<and>
     (b \<longleftrightarrow> (\<forall>n \<in> set nxt. count_of predictions n < count_of predictions' n))"
proof -
  have lt: "i < len_df df" using assms(2) by (simp add: scan_range_lt)
  obtain nxt where nxt: "get_next_numbers_list df i game_type = Inr nxt" "nxt \<noteq> []"
    using next_nonempty [OF assms] by blast
  then obtain n0 where n0: "n0 \<in> set nxt" by (cases nxt) auto
  let ?I = "inter_fires df current_numbers game_type i"
  let ?B = "bonus_fires df current_numbers game_type i"
  let ?w = "(if ?I then 1 else 0) + (if ?B then 2 else 0) :: int"
  let ?p = "if ?B then counter_update (counter_update
                (if ?I then counter_update predictions nxt else predictions) nxt) nxt
            else (if ?I then counter_update predictions nxt else predictions)"
  have pb: "patterns_body df current_numbers game_type predictions i = Inr ?p"
    by (rule patterns_body_ok [OF assms(1) lt nxt(1)])
  have im: "is_match df current_numbers game_type i = Inr (?I \<or> ?B)"
    by (rule is_match_ok [OF assms(1) lt])
  have cnt: "count_of ?p n = count_of predictions n + ?w * int (count_list nxt n)" for n
    by (simp add: count_of_update)
  have w0: "(?I \<or> ?B) \<longleftrightarrow> 0 < ?w" by simp
  have w1: "0 \<le> ?w" by simp
  have pos: "0 < int (count_list nxt n)" if "n \<in> set nxt" for n
    using that count_list_0_iff [of nxt n] by simp
  have zero: "int (count_list nxt n) = 0" if "n \<notin> set nxt" for n
    using that count_list_0_iff [of nxt n] by simp
  have A: "(?I \<or> ?B) \<longleftrightarrow> (\<exists>n. count_of ?p n \<noteq> count_of predictions n)"
  proof
    assume "?I \<or> ?B"
    then have "0 < ?w" using w0 by blast
    then have "0 < ?w * int (count_list nxt n0)" using pos [OF n0] by (rule mult_pos_pos)
    then have "count_of ?p n0 \<noteq> count_of predictions n0" unfolding cnt by linarith
    then show "\<exists>n. count_of ?p n \<noteq> count_of predictions n" by blast
  next
    assume "\<exists>n. count_of ?p n \<noteq> count_of predictions n"
    then obtain n where "count_of ?p n \<noteq> count_of predictions n" by blast
    then have "?w * int (count_list nxt n) \<noteq> 0" unfolding cnt by linarith
    then have "?w \<noteq> 0" by auto
    then show "?I \<or> ?B" by (auto split: if_splits)
  qed
  have B: "(?I \<or> ?B) \<longleftrightarrow> (\<forall>n \<in> set nxt. count_of predictions n < count_of ?p n)"
  proof
    assume "?I \<or> ?B"
    then have w: "0 < ?w" using w0 by blast
    show "\<forall>n \<in> set nxt. count_of predictions n < count_of ?p n"
    proof
      fix n assume "n \<in> set nxt"
      then have "0 < ?w * int (count_list nxt n)" using w pos by (simp only: mult_pos_pos)
      then show "count_of predictions n < count_of ?p n" unfolding cnt by linarith
    qed
  next
    assume "\<forall>n \<in> set nxt. count_of predictions n < count_of ?p n"
    then have "count_of predictions n0 < count_of ?p n0" using n0 by blast
    then have "?w * int (count_list nxt n0) \<noteq> 0" unfolding cnt by linarith
    then have "?w \<noteq> 0" by auto
    then show "?I \<or> ?B" by (auto split: if_splits)
  qed
  from pb im nxt A B show ?thesis by blast
qed

theorem same_matching_rule_witness:
  "has_cols dfB UK_49S \<and> 0 \<in> set (scan_range dfB) \<and>
   is_match dfB curB UK_49S 0 = Inr True \<and>
   (\<exists>b predictions' nxt.
     is_match dfB curB UK_49S 0 = Inr b \<and>
     patterns_body dfB curB UK_49S [] 0 = Inr predictions' \<and>
     get_next_numbers_list dfB 0 UK_49S = Inr nxt \<and> nxt \<noteq> [] \<and>
     (b \<longleftrightarrow> (\<exists>n. count_of predictions' n \<noteq> count_of [] n)) \<and>
     (b \<longleftrightarrow> (\<forall>n \<in> set nxt. count_of [] n < count_of predictions' n)))"
proof -
  have h1: "has_cols dfB UK_49S" by code_simp
  have h2: "0 \<in> set (scan_range dfB)" by code_simp
  have e1: "is_match dfB curB UK_49S 0 = Inr True" by code_simp
  from same_matching_rule [OF h1 h2, of curB "[]"] h1 h2 e1 show ?thesis by blast
qed

section \<open>The loops of \<open>analyze_splits\<close>\<close>

lemma stat_incr_ok: "m t = Some c \<Longrightarrow> stat_incr m t key = Inr (m(t \<mapsto> counter_incr key c))"
  by (simp add: stat_incr_def)

lemma pair_hits_Nil [simp]: "pair_hits [] t key = 0"
  by (simp add: pair_hits_def split: prod.splits)

lemma pair_hits_Cons: "pair_hits (p # ps) t key = pair_hits [p] t key + pair_hits ps t key"
  by (simp add: pair_hits_def split: prod.splits)

lemma pair_hits_nonneg: "0 \<le> pair_hits ps t key"
  by (simp add: pair_hits_def split: prod.splits)

lemma pair_body_ok:
  assumes "m t = Some c"
  shows "\<exists>c'. pair_body t m (a, b) = Inr (m(t \<mapsto> c')) \<and>
           (\<forall>key. count_of c' key = count_of c key + pair_hits [(a, b)] t key) \<and>
           (positive_counts c \<longrightarrow> positive_counts c')"
proof -
  let ?c1 = "if \<bar>a - b\<bar> = t then counter_incr (a, b, ''Diff'') c else c"
  let ?c2 = "if a + b = t then counter_incr (a, b, ''Sum'') ?c1 else ?c1"
  have s1: "(if \<bar>a - b\<bar> = t then stat_incr m t (a, b, ''Diff'') else Inr m) = Inr (m(t \<mapsto> ?c1))"
    using assms by (simp add: stat_incr_ok map_upd_triv)
  have s2: "(if a + b = t then stat_incr (m(t \<mapsto> ?c1)) t (a, b, ''Sum'') else Inr (m(t \<mapsto> ?c1)))
              = Inr (m(t \<mapsto> ?c2))"
    by (simp add: stat_incr_def)
  have pb: "pair_body t m (a, b) = Inr (m(t \<mapsto> ?c2))"
    unfolding pair_body_def by (simp only: prod.case s1 ebind_Inr s2)
  have cnt: "\<forall>key. count_of ?c2 key = count_of c key + pair_hits [(a, b)] t key"
    by (auto simp: count_of_incr pair_hits_def)
  have pos: "positive_counts c \<longrightarrow> positive_counts ?c2"
    by (simp add: positive_incr)
  from pb cnt pos show ?thesis by blast
qed

lemma target_body_ok:
  assumes "m t = Some c"
  shows "\<exists>c'. target_body pairs m t = Inr (m(t \<mapsto> c')) \<and>
           (\<forall>key. count_of c' key = count_of c key + pair_hits pairs t key) \<and>
           (positive_counts c \<longrightarrow> positive_counts c')"
  using assms unfolding target_body_def
proof (induction pairs arbitrary: m c)
  case Nil
  then show ?case by (intro exI [of _ c]) (simp add: map_upd_triv)
next
  case (Cons p ps)
  obtain a b where p: "p = (a, b)" by (cases p)
  from Cons.prems pair_body_ok [of m t c a b] obtain c1 where
    c1: "pair_body t m (a, b) = Inr (m(t \<mapsto> c1))"
        "\<forall>key. count_of c1 key = count_of c key + pair_hits [(a, b)] t key"
        "positive_counts c \<longrightarrow> positive_counts c1" by blast
  have "(m(t \<mapsto> c1)) t = Some c1" by simp
  from this Cons.IH [of "m(t \<mapsto> c1)" c1] obtain c2 where
    c2: "for_loop (pair_body t) ps (m(t \<mapsto> c1)) = Inr (m(t \<mapsto> c1, t \<mapsto> c2))"
        "\<forall>key. count_of c2 key = count_of c1 key + pair_hits ps t key"
        "positive_counts c1 \<longrightarrow> positive_counts c2" by blast
  have run: "for_loop (pair_body t) (p # ps) m = Inr (m(t \<mapsto> c2))"
    using c1(1) c2(1) p by simp
  have cnt: "\<forall>key. count_of c2 key = count_of c key + pair_hits (p # ps) t key"
    using c1(2) c2(2) p pair_hits_Cons [of "(a, b)" ps t] by simp
  from run cnt c1(3) c2(3) show ?case by blast
qed

lemma stat_count_upd:
  "stat_count (m(t \<mapsto> c)) t' key = (if t' = t then count_of c key else stat_count m t' key)"
  by (simp add: stat_count_def)

lemma all_positive_upd:
  "all_positive m \<Longrightarrow> positive_counts c \<Longrightarrow> all_positive (m(t \<mapsto> c))"
  by (simp add: all_positive_def)

lemma targets_loop_ok:
  assumes "set ts \<subseteq> dom m"
  shows "\<exists>m'. for_loop (target_body pairs) ts m = Inr m' \<and> dom m' = dom m \<and>
           (\<forall>t key. stat_count m' t key =
               stat_count m t key + int (count_list ts t) * pair_hits pairs t key) \<and>
           (all_positive m \<longrightarrow> all_positive m')"
  using assms
proof (induction ts arbitrary: m)
  case Nil
  then show ?case by simp
next
  case (Cons t ts)
  then obtain c where c: "m t = Some c" by auto
  from c target_body_ok [of m t c pairs] obtain c1 where
    c1: "target_body pairs m t = Inr (m(t \<mapsto> c1))"
        "\<forall>key. count_of c1 key = count_of c key + pair_hits pairs t key"
        "positive_counts c \<longrightarrow> positive_counts c1" by blast
  have sub: "set ts \<subseteq> dom (m(t \<mapsto> c1))" using Cons.prems by auto
  from sub Cons.IH [of "m(t \<mapsto> c1)"] obtain m' where
    m': "for_loop (target_body pairs) ts (m(t \<mapsto> c1)) = Inr m'"
        "dom m' = dom (m(t \<mapsto> c1))"
        "\<forall>t' key. stat_count m' t' key =
            stat_count (m(t \<mapsto> c1)) t' key + int (count_list ts t') * pair_hits pairs t' key"
        "all_positive (m(t \<mapsto> c1)) \<longrightarrow> all_positive m'" by blast
  have run: "for_loop (target_body pairs) (t # ts) m = Inr m'"
    using c1(1) m'(1) by simp
  have dm: "dom m' = dom m" using m'(2) c by auto
  have cnt: "stat_count m' t' key =
      stat_count m t' key + int (count_list (t # ts) t') * pair_hits pairs t' key" for t' key
  proof (cases "t' = t")
    case True
    have e0: "stat_count m t key = count_of c key" using c by (simp add: stat_count_def)
    have e1: "stat_count m' t key =
        stat_count (m(t \<mapsto> c1)) t key + int (count_list ts t) * pair_hits pairs t key"
      using m'(3) by blast
    have e2: "count_of c1 key = count_of c key + pair_hits pairs t key"
      using c1(2) by blast
    have e3: "stat_count (m(t \<mapsto> c1)) t key = count_of c1 key"
      by (simp add: stat_count_upd)
    show ?thesis unfolding True e1 e3 e2 e0 by (simp add: algebra_simps)
  next
    case False
    have e1: "stat_count m' t' key =
        stat_count (m(t \<mapsto> c1)) t' key + int (count_list ts t') * pair_hits pairs t' key"
      using m'(3) by blast
    show ?thesis unfolding e1 using False by (simp add: stat_count_upd)
  qed
  have pos: "all_positive m \<longrightarrow> all_positive m'"
  proof
    assume ap: "all_positive m"
    then have "positive_counts c" using c by (simp add: all_positive_def)
    then have "positive_counts c1" using c1(3) by blast
    then have "all_positive (m(t \<mapsto> c1))" using ap by (rule all_positive_upd [rotated])
    then show "all_positive m'" using m'(4) by blast
  qed
  from run dm cnt pos show ?case by blast
qed

lemma splits_body_ok:
  assumes "has_cols df game_type" and "i \<in> set (scan_range df)" and "set top_targets \<subseteq> dom m"
  shows "\<exists>m'. splits_body df current_numbers top_targets game_type m i = Inr m' \<and>
           dom m' = dom m \<and>
           (\<forall>t key. stat_count m' t key =
               stat_count m t key + row_hits df current_numbers top_targets game_type i t key) \<and>
           (all_positive m \<longrightarrow> all_positive m')"
proof -
  have lt: "i < len_df df" using scan_range_lt [OF assms(2)] by simp
  have im: "is_match df current_numbers game_type i
              = Inr (row_matches df current_numbers game_type i)"
    unfolding row_matches_def by (rule is_match_ok [OF assms(1) lt])
  have nx: "get_next_numbers_list df i game_type = Inr (next_nums df game_type i)"
    by (rule next_nums_ok [OF assms(1,2)])
  show ?thesis
  proof (cases "row_matches df current_numbers game_type i")
    case True
    have sb: "splits_body df current_numbers top_targets game_type m i =
        for_loop (target_body (combinations2 (next_nums df game_type i))) top_targets m"
      unfolding splits_body_def im nx using True by (simp add: Let_def)
    from assms(3) targets_loop_ok [of top_targets m "combinations2 (next_nums df game_type i)"]
    show ?thesis unfolding sb row_hits_def using True by simp
  next
    case False
    have sb: "splits_body df current_numbers top_targets game_type m i = Inr m"
      unfolding splits_body_def im using False by simp
    show ?thesis unfolding sb row_hits_def using False by simp
  qed
qed

lemma splits_loop:
  assumes "has_cols df game_type" and "set xs \<subseteq> set (scan_range df)"
    and "set top_targets \<subseteq> dom m"
  shows "\<exists>m'. for_loop (splits_body df current_numbers top_targets game_type) xs m = Inr m' \<and>
           dom m' = dom m \<and>
           (\<forall>t key. stat_count m' t key = stat_count m t key +
               sum_list (map (\<lambda>i. row_hits df current_numbers top_targets game_type i t key) xs)) \<and>
           (all_positive m \<longrightarrow> all_positive m')"
  using assms(2,3)
proof (induction xs arbitrary: m)
  case Nil
  then show ?case by simp
next
  case (Cons i xs)
  have i: "i \<in> set (scan_range df)" and sub: "set xs \<subseteq> set (scan_range df)"
    using Cons.prems(1) by auto
  from splits_body_ok [OF assms(1) i Cons.prems(2), of current_numbers] obtain m1 where
    m1: "splits_body df current_numbers top_targets game_type m i = Inr m1"
        "dom m1 = dom m"
        "\<forall>t key. stat_count m1 t key =
            stat_count m t key + row_hits df current_numbers top_targets game_type i t key"
        "all_positive m \<longrightarrow> all_positive m1" by blast
  have d1: "set top_targets \<subseteq> dom m1" using m1(2) Cons.prems(2) by simp
  from Cons.IH [OF sub d1] obtain m' where
    m': "for_loop (splits_body df current_numbers top_targets game_type) xs m1 = Inr m'"
        "dom m' = dom m1"
        "\<forall>t key. stat_count m' t key = stat_count m1 t key +
            sum_list (map (\<lambda>i. row_hits df current_numbers top_targets game_type i t key) xs)"
        "all_positive m1 \<longrightarrow> all_positive m'" by blast
  have run: "for_loop (splits_body df current_numbers top_targets game_type) (i # xs) m = Inr m'"
    using m1(1) m'(1) by simp
  have cnt: "stat_count m' t key = stat_count m t key +
      sum_list (map (\<lambda>i. row_hits df current_numbers top_targets game_type i t key) (i # xs))"
    for t key
    using m1(3) [rule_format, of t key] m'(3) [rule_format, of t key] by simp
  from run cnt m1(2,4) m'(2,4) show ?case by auto
qed

lemma dom_init_stats: "dom (init_stats top_targets) = set top_targets"
  unfolding init_stats_def by (simp add: dom_map_of_conv_image_fst image_image)

lemma init_stats_empty: "t \<in> set top_targets \<Longrightarrow> init_stats top_targets t = Some []"
  by (induction top_targets) (auto simp: init_stats_def)

lemma init_stats_cases: "init_stats top_targets t = Some c \<Longrightarrow> c = []"
  by (induction top_targets) (auto simp: init_stats_def split: if_splits)

lemma all_positive_init: "all_positive (init_stats top_targets)"
  unfolding all_positive_def
proof (intro allI impI)
  fix t c assume "init_stats top_targets t = Some c"
  then have "c = []" by (rule init_stats_cases)
  then show "positive_counts c" by (simp add: positive_counts_def)
qed

lemma stat_count_init: "stat_count (init_stats top_targets) t key = 0"
  by (cases "init_stats top_targets t")
     (auto simp: stat_count_def count_of_def dest: init_stats_cases)

lemma analyze_splits_ok:
  assumes "has_cols df game_type"
  shows "\<exists>m. analyze_splits df current_numbers top_targets game_type = Inr m \<and>
           dom m = set top_targets \<and> all_positive m \<and>
           (\<forall>t key. stat_count m t key =
               sum_list (map (\<lambda>i. row_hits df current_numbers top_targets game_type i t key)
                 (scan_range df)))"
proof -
  have d: "set top_targets \<subseteq> dom (init_stats top_targets)" by (simp add: dom_init_stats)
  from splits_loop [OF assms subset_refl d, of current_numbers]
  show ?thesis
    unfolding analyze_splits_def
    using all_positive_init [of top_targets]
    by (auto simp: dom_init_stats stat_count_init)
qed

section \<open>A qualifying row is processed once in \<open>analyze_splits\<close>\<close>

lemma sum_list_pos_iff:
  fixes f :: "'a \<Rightarrow> int"
  assumes "\<And>x. x \<in> set xs \<Longrightarrow> 0 \<le> f x"
  shows "0 < sum_list (map f xs) \<longleftrightarrow> (\<exists>x \<in> set xs. 0 < f x)"
  using assms
proof (induction xs)
  case Nil
  then show ?case by simp
next
  case (Cons x xs)
  have a: "0 \<le> f x" using Cons.prems by simp
  have b: "0 \<le> sum_list (map f xs)"
    by (rule sum_list_nonneg) (use Cons.prems in auto)
  have ih: "0 < sum_list (map f xs) \<longleftrightarrow> (\<exists>x \<in> set xs. 0 < f x)"
    using Cons.IH Cons.prems by simp
  have "0 < f x + sum_list (map f xs) \<longleftrightarrow> 0 < f x \<or> 0 < sum_list (map f xs)"
    using a b by linarith
  then show ?case using ih by simp
qed

lemma pair_hits_pos_iff:
  "0 < pair_hits pairs t (a, b, r) \<longleftrightarrow>
     (a, b) \<in> set pairs \<and> (r = ''Diff'' \<and> \<bar>a - b\<bar> = t \<or> r = ''Sum'' \<and> a + b = t)"
proof -
  have c: "0 < int (count_list pairs (a, b)) \<longleftrightarrow> (a, b) \<in> set pairs"
    using count_list_0_iff [of pairs "(a, b)"] by auto
  have ne: "''Diff'' \<noteq> ''Sum''" by simp
  show ?thesis
    unfolding pair_hits_def prod.case using c ne by (auto split: if_splits)
qed

lemma row_hits_nonneg: "0 \<le> row_hits df current_numbers top_targets game_type i t key"
  by (simp add: row_hits_def pair_hits_nonneg)

lemma row_hits_pos_iff:
  assumes "t \<in> set top_targets"
  shows "0 < row_hits df current_numbers top_targets game_type i t (a, b, r) \<longleftrightarrow>
     row_matches df current_numbers game_type i \<and>
     (a, b) \<in> set (combinations2 (next_nums df game_type i)) \<and>
     (r = ''Diff'' \<and> \<bar>a - b\<bar> = t \<or> r = ''Sum'' \<and> a + b = t)"
proof -
  have c: "0 < int (count_list top_targets t)"
    using assms count_list_0_iff [of top_targets t] by auto
  show ?thesis
    unfolding row_hits_def
    using c pair_hits_pos_iff [of "combinations2 (next_nums df game_type i)" t a b r]
          pair_hits_nonneg [of "combinations2 (next_nums df game_type i)" t "(a, b, r)"]
    by (auto simp: zero_less_mult_iff)
qed

lemma row_matches_code:
  assumes "has_cols df game_type" and "i \<in> set (scan_range df)"
  shows "\<exists>row row_set.
     iloc df i = Inr row \<and> get_row_numbers row game_type = Inr row_set \<and>
     get_next_numbers_list df i game_type = Inr (next_nums df game_type i) \<and>
     is_match df current_numbers game_type i = Inr (row_matches df current_numbers game_type i) \<and>
     row_matches df current_numbers game_type i =
        (match_threshold \<le> card (set current_numbers \<inter> row_set) \<or>
         (game_type = UK_49S \<and> 6 < length current_numbers \<and>
            getitem row ''Bonus'' = Inr (last current_numbers))) \<and>
     row_weight df current_numbers game_type i =
        (if match_threshold \<le> card (set current_numbers \<inter> row_set) then 1 else 0) +
        (if game_type = UK_49S \<and> 6 < length current_numbers \<and>
            getitem row ''Bonus'' = Inr (last current_numbers) then 2 else 0)"
proof -
  have lt: "i < len_df df" using scan_range_lt [OF assms(2)] by simp
  let ?row = "\<lparr>index = columns df, vals = rows df ! i\<rparr>"
  have a: "iloc df i = Inr ?row" by (rule iloc_ok [OF lt])
  have b: "get_row_numbers ?row game_type = Inr (draw_set df game_type i)"
    by (simp add: get_row_numbers_ok [OF assms(1)] draw_set_def)
  have bf: "bonus_fires df current_numbers game_type i \<longleftrightarrow>
      (game_type = UK_49S \<and> 6 < length current_numbers \<and>
             getitem ?row ''Bonus'' = Inr (last current_numbers))"
    by (auto simp: bonus_fires_def getitem_def)
  have im: "is_match df current_numbers game_type i
              = Inr (row_matches df current_numbers game_type i)"
    unfolding row_matches_def by (rule is_match_ok [OF assms(1) lt])
  have c: "row_matches df current_numbers game_type i =
        (match_threshold \<le> card (set current_numbers \<inter> draw_set df game_type i) \<or>
         (game_type = UK_49S \<and> 6 < length current_numbers \<and>
            getitem ?row ''Bonus'' = Inr (last current_numbers)))"
    unfolding row_matches_def bf inter_fires_def by (rule refl)
  have d: "row_weight df current_numbers game_type i =
        (if match_threshold \<le> card (set current_numbers \<inter> draw_set df game_type i) then 1 else 0) +
        (if game_type = UK_49S \<and> 6 < length current_numbers \<and>
            getitem ?row ''Bonus'' = Inr (last current_numbers) then 2 else 0)"
    unfolding row_weight_def bf inter_fires_def by (rule refl)
  from a b c d im next_nums_ok [OF assms] show ?thesis by blast
qed

text \<open>
  C5. For a frame that has the primary columns, \<open>analyze_splits\<close> returns a dictionary in which
  the count of a key under a target is the sum, over the rows of the scan range for which
  \<open>is_match\<close> holds, of the number of times the pairs of the next draw register the key (once
  per occurrence of the target in \<open>top_targets\<close>). \<open>is_match\<close> is the single boolean
  \<open>intersection test or bonus test\<close>, so a row for which both tests hold adds what a row with
  one of them adds, while its weight in \<open>analyze_patterns\<close> is 1 + 2 = 3.
\<close>

theorem splits_row_once:
  assumes "has_cols df game_type"
  shows "\<exists>split_stats.
     analyze_splits df current_numbers top_targets game_type = Inr split_stats \<and>
     (\<forall>t key. stat_count split_stats t key =
        sum_list (map (\<lambda>i. if row_matches df current_numbers game_type i
                            then int (count_list top_targets t) *
                                   pair_hits (combinations2 (next_nums df game_type i)) t key
                            else 0) (scan_range df))) \<and>
     (\<forall>i \<in> set (scan_range df). \<exists>row row_set.
        iloc df i = Inr row \<and> get_row_numbers row game_type = Inr row_set \<and>
        get_next_numbers_list df i game_type = Inr (next_nums df game_type i) \<and>
        is_match df current_numbers game_type i
          = Inr (row_matches df current_numbers game_type i) \<and>
        row_matches df current_numbers game_type i =
          (match_threshold \<le> card (set current_numbers \<inter> row_set) \<or>
           (game_type = UK_49S \<and> 6 < length current_numbers \<and>
              getitem row ''Bonus'' = Inr (last current_numbers))) \<and>
        row_weight df current_numbers game_type i =
          (if match_threshold \<le> card (set current_numbers \<inter> row_set) then 1 else 0) +
          (if game_type = UK_49S \<and> 6 < length current_numbers \<and>
              getitem row ''Bonus'' = Inr (last current_numbers) then 2 else 0))"
proof -
  from analyze_splits_ok [OF assms, of current_numbers top_targets] obtain m where
    m: "analyze_splits df current_numbers top_targets game_type = Inr m"
       "\<forall>t key. stat_count m t key =
               sum_list (map (\<lambda>i. row_hits df current_numbers top_targets game_type i t key)
                 (scan_range df))" by blast
  have rows: "\<forall>i \<in> set (scan_range df). \<exists>row row_set.
        iloc df i = Inr row \<and> get_row_numbers row game_type = Inr row_set \<and>
        get_next_numbers_list df i game_type = Inr (next_nums df game_type i) \<and>
        is_match df current_numbers game_type i
          = Inr (row_matches df current_numbers game_type i) \<and>
        row_matches df current_numbers game_type i =
          (match_threshold \<le> card (set current_numbers \<inter> row_set) \<or>
           (game_type = UK_49S \<and> 6 < length current_numbers \<and>
              getitem row ''Bonus'' = Inr (last current_numbers))) \<and>
        row_weight df current_numbers game_type i =
          (if match_threshold \<le> card (set current_numbers \<inter> row_set) then 1 else 0) +
          (if game_type = UK_49S \<and> 6 < length current_numbers \<and>
              getitem row ''Bonus'' = Inr (last current_numbers) then 2 else 0)"
    using row_matches_code [OF assms] by blast
  from m(1) m(2) [unfolded row_hits_def] rows show ?thesis by blast
qed

theorem splits_row_once_witness:
  "has_cols dfB UK_49S \<and>
   (case analyze_splits dfB curB [21] UK_49S of Inr m \<Rightarrow> m 21 | Inl e \<Rightarrow> None)
     = Some [((8, 13, ''Sum''), 1), ((9, 12, ''Sum''), 1), ((10, 11, ''Sum''), 1)] \<and>
   (case analyze_splits dfB [1, 2, 3, 33, 34, 35, 36] [21] UK_49S of Inr m \<Rightarrow> m 21 | Inl e \<Rightarrow> None)
     = Some [((8, 13, ''Sum''), 1), ((9, 12, ''Sum''), 1), ((10, 11, ''Sum''), 1)] \<and>
   analyze_patterns dfB curB UK_49S
     = Inr [(8, 3), (9, 3), (10, 3), (11, 3), (12, 3), (13, 3)] \<and>
   (\<exists>split_stats.
     analyze_splits dfB curB [21] UK_49S = Inr split_stats \<and>
     (\<forall>t key. stat_count split_stats t key =
        sum_list (map (\<lambda>i. if row_matches dfB curB UK_49S i
                            then int (count_list [21] t) *
                                   pair_hits (combinations2 (next_nums dfB UK_49S i)) t key
                            else 0) (scan_range dfB))) \<and>
     (\<forall>i \<in> set (scan_range dfB). \<exists>row row_set.
        iloc dfB i = Inr row \<and> get_row_numbers row UK_49S = Inr row_set \<and>
        get_next_numbers_list dfB i UK_49S = Inr (next_nums dfB UK_49S i) \<and>
        is_match dfB curB UK_49S i = Inr (row_matches dfB curB UK_49S i) \<and>
        row_matches dfB curB UK_49S i =
          (match_threshold \<le> card (set curB \<inter> row_set) \<or>
           (UK_49S = UK_49S \<and> 6 < length curB \<and>
              getitem row ''Bonus'' = Inr (last curB))) \<and>
        row_weight dfB curB UK_49S i =
          (if match_threshold \<le> card (set curB \<inter> row_set) then 1 else 0) +
          (if UK_49S = UK_49S \<and> 6 < length curB \<and>
              getitem row ''Bonus'' = Inr (last curB) then 2 else 0)))"
proof -
  have h1: "has_cols dfB UK_49S" by code_simp
  have e1: "(case analyze_splits dfB curB [21] UK_49S of Inr m \<Rightarrow> m 21 | Inl e \<Rightarrow> None)
     = Some [((8, 13, ''Sum''), 1), ((9, 12, ''Sum''), 1), ((10, 11, ''Sum''), 1)]" by code_simp
  have e2: "(case analyze_splits dfB [1, 2, 3, 33, 34, 35, 36] [21] UK_49S of Inr m \<Rightarrow> m 21 | Inl e \<Rightarrow> None)
     = Some [((8, 13, ''Sum''), 1), ((9, 12, ''Sum''), 1), ((10, 11, ''Sum''), 1)]" by code_simp
  have e3: "analyze_patterns dfB curB UK_49S
     = Inr [(8, 3), (9, 3), (10, 3), (11, 3), (12, 3), (13, 3)]" by code_simp
  from splits_row_once [OF h1, of curB "[21]"] h1 e1 e2 e3 show ?thesis by blast
qed

section \<open>What \<open>analyze_splits\<close> reports\<close>

lemma reported_iff_count:
  assumes "all_positive m" and "m t = Some c"
  shows "reported m t key \<longleftrightarrow> 0 < stat_count m t key"
proof -
  have "positive_counts c" using assms by (simp add: all_positive_def)
  then show ?thesis
    using assms(2) key_iff_positive [of c key] by (simp add: reported_def stat_count_def)
qed

lemma sorted_next_nums: "sorted (next_nums df game_type i)"
  by (simp add: next_nums_def)

text \<open>
  C3. For a frame that has the primary columns and a target \<open>t\<close> of \<open>top_targets\<close>,
  \<open>analyze_splits\<close> returns a dictionary whose Counter for \<open>t\<close> has the key \<open>(a, b, 'Diff')\<close>
  if and only if \<open>(a, b)\<close> is a pair of the ascending next numbers of a scanned row for which
  \<open>is_match\<close> holds and \<open>|a - b| = t\<close>, and the key \<open>(a, b, 'Sum')\<close> if and only if it is such a
  pair and \<open>a + b = t\<close>. The two conditions are independent, a pair for which both hold has
  both keys, and no other key appears.
\<close>

theorem split_reports:
  assumes "has_cols df game_type" and "t \<in> set top_targets"
  shows "\<exists>split_stats.
     analyze_splits df current_numbers top_targets game_type = Inr split_stats \<and>
     (\<forall>a b r. reported split_stats t (a, b, r) \<longleftrightarrow>
        (\<exists>i \<in> set (scan_range df). \<exists>nxt.
           is_match df current_numbers game_type i = Inr True \<and>
           get_next_numbers_list df i game_type = Inr nxt \<and> sorted nxt \<and>
           (a, b) \<in> set (combinations2 nxt) \<and>
           (r = ''Diff'' \<and> \<bar>a - b\<bar> = t \<or> r = ''Sum'' \<and> a + b = t)))"
proof -
  from analyze_splits_ok [OF assms(1), of current_numbers top_targets] obtain m where
    m: "analyze_splits df current_numbers top_targets game_type = Inr m"
       "dom m = set top_targets" "all_positive m"
       "\<forall>t key. stat_count m t key =
               sum_list (map (\<lambda>i. row_hits df current_numbers top_targets game_type i t key)
                 (scan_range df))" by blast
  from m(2) assms(2) obtain c where c: "m t = Some c" by auto
  have main: "reported m t (a, b, r) \<longleftrightarrow>
        (\<exists>i \<in> set (scan_range df). \<exists>nxt.
           is_match df current_numbers game_type i = Inr True \<and>
           get_next_numbers_list df i game_type = Inr nxt \<and> sorted nxt \<and>
           (a, b) \<in> set (combinations2 nxt) \<and>
           (r = ''Diff'' \<and> \<bar>a - b\<bar> = t \<or> r = ''Sum'' \<and> a + b = t))" for a b r
  proof -
    let ?f = "\<lambda>i. row_hits df current_numbers top_targets game_type i t (a, b, r)"
    have s1: "reported m t (a, b, r) \<longleftrightarrow> 0 < sum_list (map ?f (scan_range df))"
      using reported_iff_count [OF m(3) c, of "(a, b, r)"] m(4) by simp
    have s2: "0 < sum_list (map ?f (scan_range df)) \<longleftrightarrow> (\<exists>i \<in> set (scan_range df). 0 < ?f i)"
      by (rule sum_list_pos_iff) (rule row_hits_nonneg)
    have s3: "0 < ?f i \<longleftrightarrow>
        (\<exists>nxt. is_match df current_numbers game_type i = Inr True \<and>
           get_next_numbers_list df i game_type = Inr nxt \<and> sorted nxt \<and>
           (a, b) \<in> set (combinations2 nxt) \<and>
           (r = ''Diff'' \<and> \<bar>a - b\<bar> = t \<or> r = ''Sum'' \<and> a + b = t))"
      if i: "i \<in> set (scan_range df)" for i
    proof -
      have lt: "i < len_df df" using scan_range_lt [OF i] by simp
      have im: "is_match df current_numbers game_type i
                  = Inr (row_matches df current_numbers game_type i)"
        unfolding row_matches_def by (rule is_match_ok [OF assms(1) lt])
      have nx: "get_next_numbers_list df i game_type = Inr (next_nums df game_type i)"
        by (rule next_nums_ok [OF assms(1) i])
      show ?thesis
        unfolding row_hits_pos_iff [OF assms(2)] im nx
        using sorted_next_nums [of df game_type i] by auto
    qed
    show ?thesis unfolding s1 s2 using s3 by blast
  qed
  from m(1) main show ?thesis by blast
qed

theorem split_reports_witness:
  "has_cols df4 SA_DAILY \<and> 10 \<in> set [10 :: int] \<and>
   (case analyze_splits df4 [2, 3, 4, 5, 9] [10] SA_DAILY of Inr m \<Rightarrow> m 10 | Inl e \<Rightarrow> None)
     = Some [((4, 6, ''Sum''), 2), ((3, 7, ''Sum''), 1)] \<and>
   (case analyze_splits df4 [2, 3, 4, 5, 9] [4] SA_DAILY of Inr m \<Rightarrow> m 4 | Inl e \<Rightarrow> None)
     = Some [((2, 6, ''Diff''), 1), ((3, 7, ''Diff''), 1)] \<and>
   (\<exists>split_stats.
     analyze_splits df4 [2, 3, 4, 5, 9] [10] SA_DAILY = Inr split_stats \<and>
     (\<forall>a b r. reported split_stats 10 (a, b, r) \<longleftrightarrow>
        (\<exists>i \<in> set (scan_range df4). \<exists>nxt.
           is_match df4 [2, 3, 4, 5, 9] SA_DAILY i = Inr True \<and>
           get_next_numbers_list df4 i SA_DAILY = Inr nxt \<and> sorted nxt \<and>
           (a, b) \<in> set (combinations2 nxt) \<and>
           (r = ''Diff'' \<and> \<bar>a - b\<bar> = 10 \<or> r = ''Sum'' \<and> a + b = 10))))"
proof -
  have h1: "has_cols df4 SA_DAILY" by code_simp
  have h2: "10 \<in> set [10 :: int]" by simp
  have e1: "(case analyze_splits df4 [2, 3, 4, 5, 9] [10] SA_DAILY of Inr m \<Rightarrow> m 10 | Inl e \<Rightarrow> None)
     = Some [((4, 6, ''Sum''), 2), ((3, 7, ''Sum''), 1)]" by code_simp
  have e2: "(case analyze_splits df4 [2, 3, 4, 5, 9] [4] SA_DAILY of Inr m \<Rightarrow> m 4 | Inl e \<Rightarrow> None)
     = Some [((2, 6, ''Diff''), 1), ((3, 7, ''Diff''), 1)]" by code_simp
  from split_reports [OF h1 h2, of "[2, 3, 4, 5, 9]"] h1 h2 e1 e2 show ?thesis by blast
qed

section \<open>The keys of the dictionary of \<open>analyze_splits\<close>\<close>

lemma for_loop_preserves:
  assumes "for_loop body xs s = Inr s'" and "P s"
    and "\<And>s x s'. x \<in> set xs \<Longrightarrow> P s \<Longrightarrow> body s x = Inr s' \<Longrightarrow> P s'"
  shows "P s'"
  using assms
proof (induction xs arbitrary: s)
  case Nil
  then show ?case by simp
next
  case (Cons x xs)
  show ?case
  proof (cases "body s x")
    case (Inl e)
    then show ?thesis using Cons.prems(1) by simp
  next
    case (Inr s1)
    have p1: "P s1" by (rule Cons.prems(3) [OF _ Cons.prems(2) Inr]) simp
    have run: "for_loop body xs s1 = Inr s'" using Cons.prems(1) Inr by simp
    show ?thesis
    proof (rule Cons.IH [OF run p1])
      fix s x' s' assume "x' \<in> set xs" "P s" "body s x' = Inr s'"
      then show "P s'" using Cons.prems(3) [of x' s s'] by simp
    qed
  qed
qed

lemma splits_body_dom:
  assumes "set top_targets \<subseteq> dom m"
    and "splits_body df current_numbers top_targets game_type m i = Inr m'"
  shows "dom m' = dom m"
proof (cases "is_match df current_numbers game_type i")
  case (Inl e)
  then show ?thesis using assms(2) by (simp add: splits_body_def)
next
  case (Inr b)
  show ?thesis
  proof (cases b)
    case False
    then show ?thesis using assms(2) Inr by (simp add: splits_body_def)
  next
    case True
    show ?thesis
    proof (cases "get_next_numbers_list df i game_type")
      case (Inl e)
      then show ?thesis using assms(2) Inr True by (simp add: splits_body_def)
    next
      case nx: (Inr nxt)
      have sb: "for_loop (target_body (combinations2 nxt)) top_targets m = Inr m'"
        using assms(2) Inr True nx by (simp add: splits_body_def Let_def)
      from assms(1) targets_loop_ok [of top_targets m "combinations2 nxt"] obtain m2 where
        "for_loop (target_body (combinations2 nxt)) top_targets m = Inr m2" "dom m2 = dom m"
        by blast
      then show ?thesis using sb by simp
    qed
  qed
qed

lemma splits_body_no_match:
  "is_match df current_numbers game_type i = Inr False \<Longrightarrow>
     splits_body df current_numbers top_targets game_type m i = Inr m"
  by (simp add: splits_body_def)

lemma scan_range_short: "len_df df < 2 \<Longrightarrow> scan_range df = []"
  by (simp add: scan_range_def)

text \<open>
  C9. Whenever \<open>analyze_splits\<close> returns a dictionary, its key set is exactly the set of
  \<open>top_targets\<close>: every target has an entry and no other key appears. It does return one when
  the frame has the primary columns, and also when the history has fewer than two rows (where
  no row is read), whether or not a row matches.
\<close>

theorem keys_are_targets:
  "(\<forall>m. analyze_splits df current_numbers top_targets game_type = Inr m \<longrightarrow>
        dom m = set top_targets) \<and>
   (has_cols df game_type \<or> len_df df < 2 \<longrightarrow>
      (\<exists>m. analyze_splits df current_numbers top_targets game_type = Inr m \<and>
           dom m = set top_targets))"
proof (intro conjI allI impI)
  fix m assume run: "analyze_splits df current_numbers top_targets game_type = Inr m"
  let ?P = "\<lambda>m. dom m = set top_targets"
  show "dom m = set top_targets"
  proof (rule for_loop_preserves [where P = ?P, OF run [unfolded analyze_splits_def]])
    show "dom (init_stats top_targets) = set top_targets" by (rule dom_init_stats)
  next
    fix s x s'
    assume "dom s = set top_targets"
      and "splits_body df current_numbers top_targets game_type s x = Inr s'"
    then show "dom s' = set top_targets"
      using splits_body_dom [of top_targets s df current_numbers game_type x s'] by simp
  qed
next
  assume "has_cols df game_type \<or> len_df df < 2"
  then show "\<exists>m. analyze_splits df current_numbers top_targets game_type = Inr m \<and>
           dom m = set top_targets"
  proof
    assume "has_cols df game_type"
    from analyze_splits_ok [OF this, of current_numbers top_targets] show ?thesis by blast
  next
    assume "len_df df < 2"
    then show ?thesis
      by (simp add: analyze_splits_def scan_range_short dom_init_stats)
  qed
qed

theorem keys_are_targets_witness:
  "has_cols df4 SA_DAILY \<and> len_df df0 < 2 \<and>
   (\<exists>m. analyze_splits df4 [2, 3, 4, 5, 9] [10, 4] SA_DAILY = Inr m \<and> dom m = set [10, 4]) \<and>
   (\<exists>m. analyze_splits df4 [40, 41, 42, 43, 44] [10, 4] SA_DAILY = Inr m \<and> dom m = set [10, 4]) \<and>
   (\<exists>m. analyze_splits df0 [2, 3, 4, 5, 9] [10, 4] SA_DAILY = Inr m \<and> dom m = set [10, 4])"
proof -
  have h1: "has_cols df4 SA_DAILY" by code_simp
  have h2: "len_df df0 < 2" by code_simp
  note k = keys_are_targets [THEN conjunct2, rule_format]
  from k [of df4 SA_DAILY "[2, 3, 4, 5, 9]" "[10, 4]"] k [of df4 SA_DAILY "[40, 41, 42, 43, 44]" "[10, 4]"]
       k [of df0 SA_DAILY "[2, 3, 4, 5, 9]" "[10, 4]"] h1 h2
  show ?thesis by blast
qed

section \<open>A history with no qualifying row\<close>

lemma for_loop_id:
  assumes "\<And>x. x \<in> set xs \<Longrightarrow> body s x = Inr s"
  shows "for_loop body xs s = Inr s"
  using assms by (induction xs) simp_all

lemma patterns_body_no_match:
  assumes "is_match df current_numbers game_type i = Inr False"
  shows "patterns_body df current_numbers game_type p i = Inr p"
proof (cases "iloc df i")
  case (Inl e)
  then show ?thesis using assms by (simp add: is_match_def)
next
  case row: (Inr row)
  show ?thesis
  proof (cases "get_row_numbers row game_type")
    case (Inl e)
    then show ?thesis using assms row by (simp add: is_match_def)
  next
    case rs: (Inr row_set)
    let ?m0 = "match_threshold \<le> card (set current_numbers \<inter> row_set)"
    let ?g = "game_type = UK_49S \<and> 6 < length current_numbers"
    show ?thesis
    proof (cases "?g \<and> ''Bonus'' \<in> set (columns df)")
      case False
      then have "is_match df current_numbers game_type i = Inr ?m0"
        by (auto simp: is_match_def row rs Let_def)
      then have "\<not> ?m0" using assms by simp
      then show ?thesis
        using False by (auto simp: patterns_body_def row rs Let_def)
    next
      case True
      have rsU: "get_row_numbers row UK_49S = Inr row_set" using True rs by simp
      show ?thesis
      proof (cases "getitem row ''Bonus''")
        case (Inl e)
        then have "is_match df current_numbers game_type i = Inl e"
          using True by (simp add: is_match_def row rsU Let_def)
        then show ?thesis using assms by simp
      next
        case b: (Inr b)
        have im: "is_match df current_numbers game_type i =
            (if b = last current_numbers then Inr True else Inr ?m0)"
          using True b by (simp add: is_match_def row rsU Let_def)
        have nb: "b \<noteq> last current_numbers" using im assms by (auto split: if_splits)
        have nm: "\<not> ?m0" using im assms nb by simp
        show ?thesis
          using True b nb nm by (simp add: patterns_body_def row rsU Let_def)
      qed
    qed
  qed
qed

text \<open>
  C7. If the history has fewer than two rows (the loop range \<open>range(len(df) - 1)\<close> is then
  empty and no row is read, whatever the columns), or if the frame has the primary columns and
  \<open>is_match\<close> holds for no scanned row, then neither function raises: \<open>analyze_patterns\<close>
  returns the empty Counter, and \<open>analyze_splits\<close> returns a dictionary whose keys are the
  targets, each with an empty Counter, of which \<open>most_common(3)\<close> is the empty list.
\<close>

theorem no_match_empty:
  assumes "len_df df < 2 \<or>
           (has_cols df game_type \<and>
            (\<forall>i \<in> set (scan_range df). is_match df current_numbers game_type i \<noteq> Inr True))"
  shows "analyze_patterns df current_numbers game_type = Inr [] \<and>
         (\<exists>split_stats.
            analyze_splits df current_numbers top_targets game_type = Inr split_stats \<and>
            dom split_stats = set top_targets \<and>
            (\<forall>t \<in> set top_targets.
               split_stats t = Some [] \<and> splits_of split_stats t = Inr []))"
proof -
  have nm: "is_match df current_numbers game_type i = Inr False"
    if i: "i \<in> set (scan_range df)" for i
  proof -
    from i scan_range_short [of df] have l: "\<not> len_df df < 2" by auto
    with assms have h: "has_cols df game_type"
      and n: "is_match df current_numbers game_type i \<noteq> Inr True"
      using i by blast+
    from is_match_ok [OF h, of i current_numbers] scan_range_lt [OF i] n
    show ?thesis by (cases "inter_fires df current_numbers game_type i \<or>
                             bonus_fires df current_numbers game_type i") simp_all
  qed
  have a: "analyze_patterns df current_numbers game_type = Inr []"
    unfolding analyze_patterns_def
    by (rule for_loop_id) (rule patterns_body_no_match [OF nm])
  have b: "analyze_splits df current_numbers top_targets game_type = Inr (init_stats top_targets)"
    unfolding analyze_splits_def
    by (rule for_loop_id) (rule splits_body_no_match [OF nm])
  have c: "init_stats top_targets t = Some [] \<and> splits_of (init_stats top_targets) t = Inr []"
    if "t \<in> set top_targets" for t
    using init_stats_empty [OF that] by (simp add: splits_of_def most_common_def)
  from a b c dom_init_stats [of top_targets] show ?thesis by blast
qed

theorem no_match_empty_witness:
  "has_cols df4 SA_DAILY \<and> scan_range df4 = [0, 1] \<and>
   is_match df4 [40, 41, 42, 43, 44] SA_DAILY 0 = Inr False \<and>
   is_match df4 [40, 41, 42, 43, 44] SA_DAILY 1 = Inr False \<and>
   len_df df0 < 2 \<and>
   has_cols dfB UK_49S \<and> scan_range dfB = [0, 1] \<and>
   is_match dfB [1, 2, 33, 34, 35, 36, 37] UK_49S 0 = Inr False \<and>
   is_match dfB [1, 2, 33, 34, 35, 36, 37] UK_49S 1 = Inr False \<and>
   analyze_patterns df4 [40, 41, 42, 43, 44] SA_DAILY = Inr [] \<and>
   (\<exists>split_stats.
      analyze_splits df4 [40, 41, 42, 43, 44] [10, 4] SA_DAILY = Inr split_stats \<and>
      dom split_stats = set [10, 4] \<and>
      (\<forall>t \<in> set [10, 4]. split_stats t = Some [] \<and> splits_of split_stats t = Inr [])) \<and>
   analyze_patterns df0 [2, 3, 4, 5, 9] SA_DAILY = Inr [] \<and>
   (\<exists>split_stats.
      analyze_splits df0 [2, 3, 4, 5, 9] [10, 4] SA_DAILY = Inr split_stats \<and>
      dom split_stats = set [10, 4] \<and>
      (\<forall>t \<in> set [10, 4]. split_stats t = Some [] \<and> splits_of split_stats t = Inr [])) \<and>
   analyze_patterns dfB [1, 2, 33, 34, 35, 36, 37] UK_49S = Inr [] \<and>
   (\<exists>split_stats.
      analyze_splits dfB [1, 2, 33, 34, 35, 36, 37] [10, 4] UK_49S = Inr split_stats \<and>
      dom split_stats = set [10, 4] \<and>
      (\<forall>t \<in> set [10, 4]. split_stats t = Some [] \<and> splits_of split_stats t = Inr []))"
proof -
  have c1: "has_cols df4 SA_DAILY" by code_simp
  have s1: "scan_range df4 = [0, 1]" by code_simp
  have a0: "is_match df4 [40, 41, 42, 43, 44] SA_DAILY 0 = Inr False" by code_simp
  have a1: "is_match df4 [40, 41, 42, 43, 44] SA_DAILY 1 = Inr False" by code_simp
  have h1: "len_df df4 < 2 \<or> (has_cols df4 SA_DAILY \<and>
      (\<forall>i \<in> set (scan_range df4). is_match df4 [40, 41, 42, 43, 44] SA_DAILY i \<noteq> Inr True))"
    using c1 a0 a1 by (simp add: s1)
  have h2: "len_df df0 < 2" by code_simp
  have c3: "has_cols dfB UK_49S" by code_simp
  have s3: "scan_range dfB = [0, 1]" by code_simp
  have b0: "is_match dfB [1, 2, 33, 34, 35, 36, 37] UK_49S 0 = Inr False" by code_simp
  have b1: "is_match dfB [1, 2, 33, 34, 35, 36, 37] UK_49S 1 = Inr False" by code_simp
  have h3: "len_df dfB < 2 \<or> (has_cols dfB UK_49S \<and>
      (\<forall>i \<in> set (scan_range dfB). is_match dfB [1, 2, 33, 34, 35, 36, 37] UK_49S i \<noteq> Inr True))"
    using c3 b0 b1 by (simp add: s3)
  from no_match_empty [OF h1, of "[10, 4]"]
       no_match_empty [OF disjI1 [OF h2], of "[2, 3, 4, 5, 9]" SA_DAILY "[10, 4]"]
       no_match_empty [OF h3, of "[10, 4]"] c1 s1 a0 a1 h2 c3 s3 b0 b1
  show ?thesis by blast
qed

section \<open>A frame without the column \<open>Bonus\<close>\<close>

lemma no_bonus_row:
  assumes "''Bonus'' \<notin> set (columns df)" and "has_cols df game_type"
    and "i \<in> set (scan_range df)"
  shows "\<exists>row row_set.
     iloc df i = Inr row \<and> get_row_numbers row game_type = Inr row_set \<and>
     \<not> contains row ''Bonus'' \<and>
     row_set = set (map (vals row) (primary_labels game_type)) \<and>
     get_next_numbers_list df i game_type = Inr (next_nums df game_type i) \<and>
     inter_fires df current_numbers game_type i =
       (match_threshold \<le> card (set current_numbers \<inter> row_set)) \<and>
     is_match df current_numbers game_type i =
       Inr (match_threshold \<le> card (set current_numbers \<inter> row_set))"
proof -
  have lt: "i < len_df df" using scan_range_lt [OF assms(3)] by simp
  let ?row = "\<lparr>index = columns df, vals = rows df ! i\<rparr>"
  have a: "iloc df i = Inr ?row" by (rule iloc_ok [OF lt])
  have ds: "draw_set df game_type i = set (map (vals ?row) (primary_labels game_type))"
    using assms(1) by (simp add: draw_set_def)
  have b: "get_row_numbers ?row game_type = Inr (draw_set df game_type i)"
    by (simp add: get_row_numbers_ok [OF assms(2)] draw_set_def)
  have c: "\<not> contains ?row ''Bonus''" using assms(1) by (simp add: contains_def)
  have bf: "\<not> bonus_fires df current_numbers game_type i"
    using assms(1) by (simp add: bonus_fires_def)
  have im: "is_match df current_numbers game_type i
              = Inr (inter_fires df current_numbers game_type i)"
    using is_match_ok [OF assms(2) lt, of current_numbers] bf by simp
  have d: "inter_fires df current_numbers game_type i =
       (match_threshold \<le> card (set current_numbers \<inter> draw_set df game_type i))"
    by (simp add: inter_fires_def)
  have im2: "is_match df current_numbers game_type i =
       Inr (match_threshold \<le> card (set current_numbers \<inter> draw_set df game_type i))"
    unfolding im d by (rule refl)
  show ?thesis
    apply (rule exI [of _ ?row])
    apply (rule exI [of _ "draw_set df game_type i"])
    apply (intro conjI)
          apply (rule a)
         apply (rule b)
        apply (rule c)
       apply (rule ds)
      apply (rule next_nums_ok [OF assms(2,3)])
     apply (rule d)
    apply (rule im2)
    done
qed

text \<open>
  C10. If the frame has the primary columns but no column \<open>Bonus\<close>, then for every game
  type and every current draw (also \<open>UK_49S\<close> with more than six numbers) neither function
  raises, and both use the intersection test alone. The set \<open>get_row_numbers\<close> returns for a
  scanned row holds the primary numbers only; \<open>is_match\<close> of \<open>analyze_splits\<close> is the
  intersection test; the Counter of \<open>analyze_patterns\<close> counts each number of the next draw
  once per row that passes the intersection test (never with the weight 2 of the bonus test);
  and the counts of \<open>analyze_splits\<close> come from the rows that pass the intersection test.
\<close>

theorem no_bonus_column:
  assumes "''Bonus'' \<notin> set (columns df)" and "has_cols df game_type"
  shows "(\<exists>predictions.
      analyze_patterns df current_numbers game_type = Inr predictions \<and>
      (\<forall>n. count_of predictions n =
         sum_list (map (\<lambda>i. (if inter_fires df current_numbers game_type i then 1 else 0) *
                             int (count_list (next_nums df game_type i) n)) (scan_range df)))) \<and>
    (\<exists>split_stats.
      analyze_splits df current_numbers top_targets game_type = Inr split_stats \<and>
      (\<forall>t key. stat_count split_stats t key =
         sum_list (map (\<lambda>i. if inter_fires df current_numbers game_type i
                             then int (count_list top_targets t) *
                                    pair_hits (combinations2 (next_nums df game_type i)) t key
                             else 0) (scan_range df)))) \<and>
    (\<forall>i \<in> set (scan_range df). \<exists>row row_set.
       iloc df i = Inr row \<and> get_row_numbers row game_type = Inr row_set \<and>
       \<not> contains row ''Bonus'' \<and>
       row_set = set (map (vals row) (primary_labels game_type)) \<and>
       get_next_numbers_list df i game_type = Inr (next_nums df game_type i) \<and>
       inter_fires df current_numbers game_type i =
         (match_threshold \<le> card (set current_numbers \<inter> row_set)) \<and>
       is_match df current_numbers game_type i =
         Inr (match_threshold \<le> card (set current_numbers \<inter> row_set)))"
proof -
  have bf: "\<not> bonus_fires df current_numbers game_type i" for i
    using assms(1) by (simp add: bonus_fires_def)
  have rw: "row_weight df current_numbers game_type =
      (\<lambda>i. if inter_fires df current_numbers game_type i then 1 else 0)"
    by (rule ext) (simp add: row_weight_def bf)
  have rh: "row_hits df current_numbers top_targets game_type i t key =
      (if inter_fires df current_numbers game_type i
       then int (count_list top_targets t) *
              pair_hits (combinations2 (next_nums df game_type i)) t key
       else 0)" for i t key
    by (simp add: row_hits_def row_matches_def bf)
  from patterns_loop [OF assms(2) subset_refl, of current_numbers "[]"] obtain p where
    p: "analyze_patterns df current_numbers game_type = Inr p"
       "\<forall>n. count_of p n = count_of [] n +
          sum_list (map (\<lambda>i. row_weight df current_numbers game_type i *
                            int (count_list (next_nums df game_type i) n)) (scan_range df))"
    unfolding analyze_patterns_def by blast
  have z: "count_of ([] :: int counter) n = 0" for n by (simp add: count_of_def)
  have cnt: "\<forall>n. count_of p n =
         sum_list (map (\<lambda>i. (if inter_fires df current_numbers game_type i then 1 else 0) *
                             int (count_list (next_nums df game_type i) n)) (scan_range df))"
    using p(2) unfolding rw by (simp add: z)
  from analyze_splits_ok [OF assms(2), of current_numbers top_targets] obtain m where
    m: "analyze_splits df current_numbers top_targets game_type = Inr m"
       "\<forall>t key. stat_count m t key =
               sum_list (map (\<lambda>i. row_hits df current_numbers top_targets game_type i t key)
                 (scan_range df))"
    by blast
  have sc: "\<forall>t key. stat_count m t key =
         sum_list (map (\<lambda>i. if inter_fires df current_numbers game_type i
                             then int (count_list top_targets t) *
                                    pair_hits (combinations2 (next_nums df game_type i)) t key
                             else 0) (scan_range df))"
    using m(2) unfolding rh by simp
  have rows: "\<forall>i \<in> set (scan_range df). \<exists>row row_set.
       iloc df i = Inr row \<and> get_row_numbers row game_type = Inr row_set \<and>
       \<not> contains row ''Bonus'' \<and>
       row_set = set (map (vals row) (primary_labels game_type)) \<and>
       get_next_numbers_list df i game_type = Inr (next_nums df game_type i) \<and>
       inter_fires df current_numbers game_type i =
         (match_threshold \<le> card (set current_numbers \<inter> row_set)) \<and>
       is_match df current_numbers game_type i =
         Inr (match_threshold \<le> card (set current_numbers \<inter> row_set))"
    using no_bonus_row [OF assms] by blast
  have A: "\<exists>predictions.
      analyze_patterns df current_numbers game_type = Inr predictions \<and>
      (\<forall>n. count_of predictions n =
         sum_list (map (\<lambda>i. (if inter_fires df current_numbers game_type i then 1 else 0) *
                             int (count_list (next_nums df game_type i) n)) (scan_range df)))"
    using p(1) cnt by blast
  have B: "\<exists>split_stats.
      analyze_splits df current_numbers top_targets game_type = Inr split_stats \<and>
      (\<forall>t key. stat_count split_stats t key =
         sum_list (map (\<lambda>i. if inter_fires df current_numbers game_type i
                             then int (count_list top_targets t) *
                                    pair_hits (combinations2 (next_nums df game_type i)) t key
                             else 0) (scan_range df)))"
    using m(1) sc by blast
  from A B rows show ?thesis by (intro conjI)
qed

theorem no_bonus_column_witness:
  "''Bonus'' \<notin> set (columns dfN) \<and> has_cols dfN UK_49S \<and> 6 < length curB \<and>
   analyze_patterns dfN curB UK_49S
     = Inr [(8, 1), (9, 1), (10, 1), (11, 1), (12, 1), (13, 1)] \<and>
   analyze_patterns dfB curB UK_49S
     = Inr [(8, 3), (9, 3), (10, 3), (11, 3), (12, 3), (13, 3)] \<and>
   analyze_patterns dfN [30, 31, 32, 33, 34, 35, 7] UK_49S = Inr [] \<and>
   is_match dfN [30, 31, 32, 33, 34, 35, 7] UK_49S 0 = Inr False \<and>
   is_match dfB [30, 31, 32, 33, 34, 35, 7] UK_49S 0 = Inr True \<and>
   (case analyze_splits dfN curB [21] UK_49S of Inr m \<Rightarrow> m 21 | Inl e \<Rightarrow> None)
     = Some [((8, 13, ''Sum''), 1), ((9, 12, ''Sum''), 1), ((10, 11, ''Sum''), 1)] \<and>
   (case analyze_splits dfN [30, 31, 32, 33, 34, 35, 7] [21] UK_49S of Inr m \<Rightarrow> m 21 | Inl e \<Rightarrow> None)
     = Some [] \<and>
   (\<exists>predictions.
      analyze_patterns dfN curB UK_49S = Inr predictions \<and>
      (\<forall>n. count_of predictions n =
         sum_list (map (\<lambda>i. (if inter_fires dfN curB UK_49S i then 1 else 0) *
                             int (count_list (next_nums dfN UK_49S i) n)) (scan_range dfN)))) \<and>
   (\<exists>split_stats.
      analyze_splits dfN curB [21] UK_49S = Inr split_stats \<and>
      (\<forall>t key. stat_count split_stats t key =
         sum_list (map (\<lambda>i. if inter_fires dfN curB UK_49S i
                             then int (count_list [21] t) *
                                    pair_hits (combinations2 (next_nums dfN UK_49S i)) t key
                             else 0) (scan_range dfN))))"
proof -
  have h1: "''Bonus'' \<notin> set (columns dfN)" by code_simp
  have h2: "has_cols dfN UK_49S" by code_simp
  have h3: "6 < length curB" by code_simp
  have e1: "analyze_patterns dfN curB UK_49S
     = Inr [(8, 1), (9, 1), (10, 1), (11, 1), (12, 1), (13, 1)]" by code_simp
  have e2: "analyze_patterns dfB curB UK_49S
     = Inr [(8, 3), (9, 3), (10, 3), (11, 3), (12, 3), (13, 3)]" by code_simp
  have e3: "analyze_patterns dfN [30, 31, 32, 33, 34, 35, 7] UK_49S = Inr []" by code_simp
  have e4: "is_match dfN [30, 31, 32, 33, 34, 35, 7] UK_49S 0 = Inr False" by code_simp
  have e5: "is_match dfB [30, 31, 32, 33, 34, 35, 7] UK_49S 0 = Inr True" by code_simp
  have e6: "(case analyze_splits dfN curB [21] UK_49S of Inr m \<Rightarrow> m 21 | Inl e \<Rightarrow> None)
     = Some [((8, 13, ''Sum''), 1), ((9, 12, ''Sum''), 1), ((10, 11, ''Sum''), 1)]" by code_simp
  have e7: "(case analyze_splits dfN [30, 31, 32, 33, 34, 35, 7] [21] UK_49S of Inr m \<Rightarrow> m 21 | Inl e \<Rightarrow> None)
     = Some []" by code_simp
  from no_bonus_column [OF h1 h2, of curB "[21]"] h1 h2 h3 e1 e2 e3 e4 e5 e6 e7
  show ?thesis by blast
qed

section \<open>Ranking of the targets and of the splits\<close>

lemma first_seen_from_append:
  "first_seen_from ks (xs @ ys) = first_seen_from (first_seen_from ks xs) ys"
  by (induction xs arbitrary: ks) simp_all

lemma set_first_seen_from: "set (first_seen_from ks xs) = set ks \<union> set xs"
  by (induction xs arbitrary: ks) auto

lemma first_seen_from_id: "set xs \<subseteq> set ks \<Longrightarrow> first_seen_from ks xs = ks"
  by (induction xs) simp_all

lemma first_seen_from_twice:
  "first_seen_from (first_seen_from ks xs) xs = first_seen_from ks xs"
  by (rule first_seen_from_id) (simp add: set_first_seen_from)

lemma distinct_first_seen_from: "distinct ks \<Longrightarrow> distinct (first_seen_from ks xs)"
  by (induction xs arbitrary: ks) simp_all

lemma keys_update: "map fst (counter_update c xs) = first_seen_from (map fst c) xs"
proof (induction xs arbitrary: c)
  case Nil
  then show ?case by (simp add: counter_update_def)
next
  case (Cons x xs)
  have "counter_update c (x # xs) = counter_update (counter_incr x c) xs"
    by (simp add: counter_update_def)
  then show ?case using Cons.IH [of "counter_incr x c"] by (simp add: keys_order_incr)
qed

lemma patterns_body_keys:
  assumes "has_cols df game_type" and "i \<in> set (scan_range df)"
  shows "\<exists>p'. patterns_body df current_numbers game_type p i = Inr p' \<and>
     map fst p' = first_seen_from (map fst p)
        (if row_matches df current_numbers game_type i then next_nums df game_type i else [])"
proof -
  have lt: "i < len_df df" using scan_range_lt [OF assms(2)] by simp
  note pb = patterns_body_ok [OF assms(1) lt next_nums_ok [OF assms], of current_numbers p]
  show ?thesis
    unfolding pb row_matches_def
    by (simp add: keys_update first_seen_from_twice)
qed

lemma patterns_loop_keys:
  assumes "has_cols df game_type" and "set xs \<subseteq> set (scan_range df)"
  shows "\<exists>p'. for_loop (patterns_body df current_numbers game_type) xs p = Inr p' \<and>
     map fst p' = first_seen_from (map fst p)
        (concat (map (\<lambda>i. if row_matches df current_numbers game_type i
                           then next_nums df game_type i else []) xs))"
  using assms(2)
proof (induction xs arbitrary: p)
  case Nil
  then show ?case by simp
next
  case (Cons i xs)
  have i: "i \<in> set (scan_range df)" and sub: "set xs \<subseteq> set (scan_range df)"
    using Cons.prems by auto
  from patterns_body_keys [OF assms(1) i, of current_numbers p] obtain p1 where
    p1: "patterns_body df current_numbers game_type p i = Inr p1"
        "map fst p1 = first_seen_from (map fst p)
           (if row_matches df current_numbers game_type i then next_nums df game_type i else [])"
    by blast
  from Cons.IH [OF sub, of p1] obtain p' where
    p': "for_loop (patterns_body df current_numbers game_type) xs p1 = Inr p'"
        "map fst p' = first_seen_from (map fst p1)
           (concat (map (\<lambda>i. if row_matches df current_numbers game_type i
                              then next_nums df game_type i else []) xs))"
    by blast
  have run: "for_loop (patterns_body df current_numbers game_type) (i # xs) p = Inr p'"
    using p1(1) p'(1) by simp
  have keys: "map fst p' = first_seen_from (map fst p)
        (concat (map (\<lambda>i. if row_matches df current_numbers game_type i
                           then next_nums df game_type i else []) (i # xs)))"
    unfolding p'(2) p1(2) by (simp only: list.map concat.simps first_seen_from_append)
  from run keys show ?case by blast
qed

lemma pair_keys_Nil: "pair_keys t [] = []"
  by (simp add: pair_keys_def)

lemma pair_keys_Cons: "pair_keys t (p # ps) = pair_keys t [p] @ pair_keys t ps"
  by (simp add: pair_keys_def)

lemma pair_body_keys:
  assumes "m t = Some c"
  shows "\<exists>c'. pair_body t m (a, b) = Inr (m(t \<mapsto> c')) \<and>
           map fst c' = first_seen_from (map fst c) (pair_keys t [(a, b)])"
proof -
  let ?c1 = "if \<bar>a - b\<bar> = t then counter_incr (a, b, ''Diff'') c else c"
  let ?c2 = "if a + b = t then counter_incr (a, b, ''Sum'') ?c1 else ?c1"
  have s1: "(if \<bar>a - b\<bar> = t then stat_incr m t (a, b, ''Diff'') else Inr m) = Inr (m(t \<mapsto> ?c1))"
    using assms by (simp add: stat_incr_ok map_upd_triv)
  have s2: "(if a + b = t then stat_incr (m(t \<mapsto> ?c1)) t (a, b, ''Sum'') else Inr (m(t \<mapsto> ?c1)))
              = Inr (m(t \<mapsto> ?c2))"
    by (simp add: stat_incr_def)
  have pb: "pair_body t m (a, b) = Inr (m(t \<mapsto> ?c2))"
    unfolding pair_body_def by (simp only: prod.case s1 ebind_Inr s2)
  have ki: "fst ` set (counter_incr k c0) = insert k (fst ` set c0)"
    for k :: split_key and c0 :: "split_key counter"
    using keys_incr [of k c0] by simp
  have keys: "map fst ?c2 = first_seen_from (map fst c) (pair_keys t [(a, b)])"
    by (auto simp: pair_keys_def keys_order_incr ki)
  from pb keys show ?thesis by blast
qed

lemma target_body_keys:
  assumes "m t = Some c"
  shows "\<exists>c'. target_body pairs m t = Inr (m(t \<mapsto> c')) \<and>
           map fst c' = first_seen_from (map fst c) (pair_keys t pairs)"
  using assms unfolding target_body_def
proof (induction pairs arbitrary: m c)
  case Nil
  then show ?case by (intro exI [of _ c]) (simp add: map_upd_triv pair_keys_Nil)
next
  case (Cons p ps)
  obtain a b where p: "p = (a, b)" by (cases p)
  from Cons.prems pair_body_keys [of m t c a b] obtain c1 where
    c1: "pair_body t m (a, b) = Inr (m(t \<mapsto> c1))"
        "map fst c1 = first_seen_from (map fst c) (pair_keys t [(a, b)])" by blast
  have "(m(t \<mapsto> c1)) t = Some c1" by simp
  from this Cons.IH [of "m(t \<mapsto> c1)" c1] obtain c2 where
    c2: "for_loop (pair_body t) ps (m(t \<mapsto> c1)) = Inr (m(t \<mapsto> c1, t \<mapsto> c2))"
        "map fst c2 = first_seen_from (map fst c1) (pair_keys t ps)" by blast
  have run: "for_loop (pair_body t) (p # ps) m = Inr (m(t \<mapsto> c2))"
    using c1(1) c2(1) p by simp
  have keys: "map fst c2 = first_seen_from (map fst c) (pair_keys t (p # ps))"
    unfolding c2(2) c1(2) p pair_keys_Cons [of t "(a, b)" ps]
    by (simp only: first_seen_from_append)
  from run keys show ?case by blast
qed

lemma targets_loop_keys:
  assumes "set ts \<subseteq> dom m"
  shows "\<exists>m'. for_loop (target_body pairs) ts m = Inr m' \<and>
           (\<forall>t c. m t = Some c \<longrightarrow>
              (\<exists>c'. m' t = Some c' \<and>
                 map fst c' = first_seen_from (map fst c)
                    (if t \<in> set ts then pair_keys t pairs else [])))"
  using assms
proof (induction ts arbitrary: m)
  case Nil
  then show ?case by simp
next
  case (Cons t ts)
  then obtain c where c: "m t = Some c" by auto
  from c target_body_keys [of m t c pairs] obtain c1 where
    c1: "target_body pairs m t = Inr (m(t \<mapsto> c1))"
        "map fst c1 = first_seen_from (map fst c) (pair_keys t pairs)" by blast
  have sub: "set ts \<subseteq> dom (m(t \<mapsto> c1))" using Cons.prems by auto
  from sub Cons.IH [of "m(t \<mapsto> c1)"] obtain m' where
    m': "for_loop (target_body pairs) ts (m(t \<mapsto> c1)) = Inr m'"
        "\<And>t' c0. (m(t \<mapsto> c1)) t' = Some c0 \<Longrightarrow>
              (\<exists>c'. m' t' = Some c' \<and>
                 map fst c' = first_seen_from (map fst c0)
                    (if t' \<in> set ts then pair_keys t' pairs else []))" by blast
  have run: "for_loop (target_body pairs) (t # ts) m = Inr m'"
    using c1(1) m'(1) by simp
  have keys: "\<exists>c'. m' t' = Some c' \<and>
        map fst c' = first_seen_from (map fst c0)
           (if t' \<in> set (t # ts) then pair_keys t' pairs else [])"
    if g: "m t' = Some c0" for t' c0
  proof (cases "t' = t")
    case True
    then have c0: "c0 = c" using g c by simp
    have "(m(t \<mapsto> c1)) t = Some c1" by simp
    from m'(2) [OF this] obtain c' where
      c': "m' t = Some c'"
          "map fst c' = first_seen_from (map fst c1) (if t \<in> set ts then pair_keys t pairs else [])"
      by blast
    have "map fst c' = first_seen_from (map fst c) (pair_keys t pairs)"
      unfolding c'(2) c1(2) by (simp add: first_seen_from_twice)
    then show ?thesis using c'(1) True c0 by simp
  next
    case False
    then have "(m(t \<mapsto> c1)) t' = Some c0" using g by simp
    from m'(2) [OF this] show ?thesis using False by simp
  qed
  from run keys show ?case by blast
qed

lemma splits_body_keys:
  assumes "has_cols df game_type" and "i \<in> set (scan_range df)" and "set top_targets \<subseteq> dom m"
  shows "\<exists>m'. splits_body df current_numbers top_targets game_type m i = Inr m' \<and>
           (\<forall>t c. m t = Some c \<longrightarrow>
              (\<exists>c'. m' t = Some c' \<and>
                 map fst c' = first_seen_from (map fst c)
                    (if t \<in> set top_targets
                     then (if row_matches df current_numbers game_type i
                           then pair_keys t (combinations2 (next_nums df game_type i)) else [])
                     else [])))"
proof -
  have lt: "i < len_df df" using scan_range_lt [OF assms(2)] by simp
  have im: "is_match df current_numbers game_type i
              = Inr (row_matches df current_numbers game_type i)"
    unfolding row_matches_def by (rule is_match_ok [OF assms(1) lt])
  have nx: "get_next_numbers_list df i game_type = Inr (next_nums df game_type i)"
    by (rule next_nums_ok [OF assms(1,2)])
  show ?thesis
  proof (cases "row_matches df current_numbers game_type i")
    case True
    have sb: "splits_body df current_numbers top_targets game_type m i =
        for_loop (target_body (combinations2 (next_nums df game_type i))) top_targets m"
      unfolding splits_body_def im nx using True by (simp add: Let_def)
    from assms(3) targets_loop_keys [of top_targets m "combinations2 (next_nums df game_type i)"]
    show ?thesis unfolding sb by (simp only: True if_True)
  next
    case False
    have sb: "splits_body df current_numbers top_targets game_type m i = Inr m"
      unfolding splits_body_def im using False by simp
    show ?thesis unfolding sb using False by simp
  qed
qed

lemma splits_loop_keys:
  assumes "has_cols df game_type" and "set xs \<subseteq> set (scan_range df)"
    and "set top_targets \<subseteq> dom m"
  shows "\<exists>m'. for_loop (splits_body df current_numbers top_targets game_type) xs m = Inr m' \<and>
           (\<forall>t c. m t = Some c \<longrightarrow>
              (\<exists>c'. m' t = Some c' \<and>
                 map fst c' = first_seen_from (map fst c)
                    (if t \<in> set top_targets
                     then concat (map (\<lambda>i. if row_matches df current_numbers game_type i
                             then pair_keys t (combinations2 (next_nums df game_type i)) else []) xs)
                     else [])))"
  using assms(2,3)
proof (induction xs arbitrary: m)
  case Nil
  then show ?case by simp
next
  case (Cons i xs)
  have i: "i \<in> set (scan_range df)" and sub: "set xs \<subseteq> set (scan_range df)"
    using Cons.prems(1) by auto
  from splits_body_keys [OF assms(1) i Cons.prems(2), of current_numbers] obtain m1 where
    m1: "splits_body df current_numbers top_targets game_type m i = Inr m1"
        "\<And>t c. m t = Some c \<Longrightarrow>
              (\<exists>c'. m1 t = Some c' \<and>
                 map fst c' = first_seen_from (map fst c)
                    (if t \<in> set top_targets
                     then (if row_matches df current_numbers game_type i
                           then pair_keys t (combinations2 (next_nums df game_type i)) else [])
                     else []))" by blast
  have d1: "set top_targets \<subseteq> dom m1"
  proof
    fix t assume "t \<in> set top_targets"
    then obtain c where "m t = Some c" using Cons.prems(2) by auto
    from m1(2) [OF this] show "t \<in> dom m1" by auto
  qed
  from Cons.IH [OF sub d1] obtain m' where
    m': "for_loop (splits_body df current_numbers top_targets game_type) xs m1 = Inr m'"
        "\<And>t c. m1 t = Some c \<Longrightarrow>
              (\<exists>c'. m' t = Some c' \<and>
                 map fst c' = first_seen_from (map fst c)
                    (if t \<in> set top_targets
                     then concat (map (\<lambda>i. if row_matches df current_numbers game_type i
                             then pair_keys t (combinations2 (next_nums df game_type i)) else []) xs)
                     else []))" by blast
  have run: "for_loop (splits_body df current_numbers top_targets game_type) (i # xs) m = Inr m'"
    using m1(1) m'(1) by simp
  have keys: "\<exists>c'. m' t = Some c' \<and>
        map fst c' = first_seen_from (map fst c)
           (if t \<in> set top_targets
            then concat (map (\<lambda>i. if row_matches df current_numbers game_type i
                    then pair_keys t (combinations2 (next_nums df game_type i)) else []) (i # xs))
            else [])"
    if g: "m t = Some c" for t c
  proof -
    from m1(2) [OF g] obtain c1 where
      c1: "m1 t = Some c1"
          "map fst c1 = first_seen_from (map fst c)
                    (if t \<in> set top_targets
                     then (if row_matches df current_numbers game_type i
                           then pair_keys t (combinations2 (next_nums df game_type i)) else [])
                     else [])" by blast
    from m'(2) [OF c1(1)] obtain c' where
      c': "m' t = Some c'"
          "map fst c' = first_seen_from (map fst c1)
                    (if t \<in> set top_targets
                     then concat (map (\<lambda>i. if row_matches df current_numbers game_type i
                             then pair_keys t (combinations2 (next_nums df game_type i)) else []) xs)
                     else [])" by blast
    have "map fst c' = first_seen_from (map fst c)
           (if t \<in> set top_targets
            then concat (map (\<lambda>i. if row_matches df current_numbers game_type i
                    then pair_keys t (combinations2 (next_nums df game_type i)) else []) (i # xs))
            else [])"
      unfolding c'(2) c1(2)
      by (cases "t \<in> set top_targets") (simp_all add: first_seen_from_append)
    with c'(1) show ?thesis by blast
  qed
  from run keys show ?case by blast
qed

lemma analyze_splits_keys:
  assumes "has_cols df game_type"
  shows "\<exists>m. analyze_splits df current_numbers top_targets game_type = Inr m \<and>
           (\<forall>t \<in> set top_targets. \<exists>c. m t = Some c \<and>
               map fst c = first_seen (seen_keys df current_numbers game_type t))"
proof -
  have d: "set top_targets \<subseteq> dom (init_stats top_targets)" by (simp add: dom_init_stats)
  from splits_loop_keys [OF assms subset_refl d, of current_numbers] obtain m where
    m: "analyze_splits df current_numbers top_targets game_type = Inr m"
       "\<And>t c. init_stats top_targets t = Some c \<Longrightarrow>
              (\<exists>c'. m t = Some c' \<and>
                 map fst c' = first_seen_from (map fst c)
                    (if t \<in> set top_targets
                     then concat (map (\<lambda>i. if row_matches df current_numbers game_type i
                             then pair_keys t (combinations2 (next_nums df game_type i)) else [])
                               (scan_range df))
                     else []))"
    unfolding analyze_splits_def by blast
  have "\<exists>c. m t = Some c \<and> map fst c = first_seen (seen_keys df current_numbers game_type t)"
    if t: "t \<in> set top_targets" for t
    using m(2) [OF init_stats_empty [OF t]] t by (simp add: first_seen_def seen_keys_def)
  with m(1) show ?thesis by blast
qed

lemma analyze_patterns_keys:
  assumes "has_cols df game_type"
  shows "\<exists>p. analyze_patterns df current_numbers game_type = Inr p \<and>
           map fst p = first_seen (seen_numbers df current_numbers game_type)"
  using patterns_loop_keys [OF assms subset_refl, of current_numbers "[]"]
  unfolding analyze_patterns_def first_seen_def seen_numbers_def by simp

lemma most_common_take: "most_common n c = take n (most_common (length c) c)"
  by (simp add: most_common_def)

lemma most_common_perm: "mset (most_common (length c) c) = mset c"
  by (simp add: most_common_def)

lemma most_common_sorted: "sorted_wrt (\<lambda>x y. snd y \<le> snd x) (most_common n c)"
proof -
  have "sorted (map (\<lambda>kc. - snd kc) (sort_key (\<lambda>kc. - snd kc) c))" by (rule sorted_sort_key)
  then have "sorted_wrt (\<lambda>x y. snd y \<le> snd x) (sort_key (\<lambda>kc. - snd kc) c)"
    by (simp add: sorted_map)
  then show ?thesis unfolding most_common_def by (rule sorted_wrt_take)
qed

lemma most_common_stable:
  "filter (\<lambda>kc. snd kc = v) (most_common (length c) c) = filter (\<lambda>kc. snd kc = v) c"
proof -
  have "filter (\<lambda>kc. - snd kc = - v) (sort_key (\<lambda>kc. - snd kc) c)
          = filter (\<lambda>kc. - snd kc = - v) c"
    by (rule sort_key_stable)
  then show ?thesis by (simp add: most_common_def)
qed

lemma item_count: "distinct (map fst c) \<Longrightarrow> kc \<in> set c \<Longrightarrow> snd kc = count_of c (fst kc)"
  by (cases kc) (simp add: count_of_def)

lemma ranking_facts:
  assumes "map fst c = first_seen xs"
  shows "distinct (map fst c) \<and>
     (\<forall>kc \<in> set c. snd kc = count_of c (fst kc)) \<and>
     mset (most_common (length c) c) = mset c \<and>
     sorted_wrt (\<lambda>x y. snd y \<le> snd x) (most_common (length c) c) \<and>
     (\<forall>v. filter (\<lambda>kc. snd kc = v) (most_common (length c) c) = filter (\<lambda>kc. snd kc = v) c)"
proof -
  have d: "distinct (map fst c)"
    unfolding assms first_seen_def by (rule distinct_first_seen_from) simp
  from d item_count [OF d] most_common_perm [of c] most_common_sorted [of "length c" c]
    most_common_stable [of _ c]
  show ?thesis by blast
qed

text \<open>
  C6. For a frame with the primary columns both functions return, and:
  the items of the Counter of \<open>analyze_patterns\<close>, and of the Counter of every target in the
  dictionary of \<open>analyze_splits\<close>, stand in the order in which their keys were first seen in
  the scan, one item per key, each carrying the count of its key;
  \<open>most_common\<close> of the whole Counter is a rearrangement of these items with the counts
  descending, in which the items of equal count keep their first-seen order;
  the targets of the reference flow (line 152) are the keys of the first 7 items of that
  ranking, and the splits it shows for a target (line 173) are the first 3 items of the
  ranking of that target's Counter.
\<close>

theorem ranked_outputs:
  assumes "has_cols df game_type"
  shows "\<exists>predictions split_stats.
     analyze_patterns df current_numbers game_type = Inr predictions \<and>
     map fst predictions = first_seen (seen_numbers df current_numbers game_type) \<and>
     distinct (map fst predictions) \<and>
     (\<forall>kc \<in> set predictions. snd kc = count_of predictions (fst kc)) \<and>
     mset (most_common (length predictions) predictions) = mset predictions \<and>
     sorted_wrt (\<lambda>x y. snd y \<le> snd x) (most_common (length predictions) predictions) \<and>
     (\<forall>v. filter (\<lambda>kc. snd kc = v) (most_common (length predictions) predictions)
            = filter (\<lambda>kc. snd kc = v) predictions) \<and>
     top_targets_of predictions
       = map fst (take 7 (most_common (length predictions) predictions)) \<and>
     analyze_splits df current_numbers top_targets game_type = Inr split_stats \<and>
     (\<forall>t \<in> set top_targets. \<exists>c.
        split_stats t = Some c \<and>
        map fst c = first_seen (seen_keys df current_numbers game_type t) \<and>
        distinct (map fst c) \<and>
        (\<forall>kc \<in> set c. snd kc = count_of c (fst kc)) \<and>
        mset (most_common (length c) c) = mset c \<and>
        sorted_wrt (\<lambda>x y. snd y \<le> snd x) (most_common (length c) c) \<and>
        (\<forall>v. filter (\<lambda>kc. snd kc = v) (most_common (length c) c)
               = filter (\<lambda>kc. snd kc = v) c) \<and>
        splits_of split_stats t = Inr (take 3 (most_common (length c) c)))"
proof -
  from analyze_patterns_keys [OF assms, of current_numbers] obtain p where
    p: "analyze_patterns df current_numbers game_type = Inr p"
       "map fst p = first_seen (seen_numbers df current_numbers game_type)" by blast
  from analyze_splits_keys [OF assms, of current_numbers top_targets] obtain m where
    m: "analyze_splits df current_numbers top_targets game_type = Inr m"
       "\<And>t. t \<in> set top_targets \<Longrightarrow> \<exists>c. m t = Some c \<and>
               map fst c = first_seen (seen_keys df current_numbers game_type t)" by blast
  have tt: "top_targets_of p = map fst (take 7 (most_common (length p) p))"
    unfolding top_targets_of_def by (subst most_common_take) (rule refl)
  have sp: "\<exists>c. m t = Some c \<and>
        map fst c = first_seen (seen_keys df current_numbers game_type t) \<and>
        distinct (map fst c) \<and>
        (\<forall>kc \<in> set c. snd kc = count_of c (fst kc)) \<and>
        mset (most_common (length c) c) = mset c \<and>
        sorted_wrt (\<lambda>x y. snd y \<le> snd x) (most_common (length c) c) \<and>
        (\<forall>v. filter (\<lambda>kc. snd kc = v) (most_common (length c) c)
               = filter (\<lambda>kc. snd kc = v) c) \<and>
        splits_of m t = Inr (take 3 (most_common (length c) c))"
    if t: "t \<in> set top_targets" for t
  proof -
    from m(2) [OF t] obtain c where
      c: "m t = Some c" "map fst c = first_seen (seen_keys df current_numbers game_type t)"
      by blast
    have so: "splits_of m t = Inr (take 3 (most_common (length c) c))"
      unfolding splits_of_def c(1) by (subst most_common_take) simp
    from c so ranking_facts [OF c(2)] show ?thesis by blast
  qed
  from p tt m(1) sp ranking_facts [OF p(2)] show ?thesis by blast
qed

theorem ranked_outputs_witness:
  "has_cols dfB UK_49S \<and>
   analyze_patterns dfB [1, 2, 3, 8, 9, 10, 99] UK_49S
     = Inr [(8, 1), (9, 1), (10, 1), (11, 1), (12, 1), (13, 1),
            (15, 1), (16, 1), (17, 1), (18, 1), (19, 1), (20, 1)] \<and>
   (case analyze_patterns dfB [1, 2, 3, 8, 9, 10, 99] UK_49S of
      Inr p \<Rightarrow> top_targets_of p | Inl e \<Rightarrow> []) = [8, 9, 10, 11, 12, 13, 15] \<and>
   (case analyze_splits dfB [1, 2, 3, 8, 9, 10, 99] [3] UK_49S of
      Inr m \<Rightarrow> m 3 | Inl e \<Rightarrow> None)
     = Some [((8, 11, ''Diff''), 1), ((9, 12, ''Diff''), 1), ((10, 13, ''Diff''), 1),
             ((15, 18, ''Diff''), 1), ((16, 19, ''Diff''), 1), ((17, 20, ''Diff''), 1)] \<and>
   (case analyze_splits dfB [1, 2, 3, 8, 9, 10, 99] [3] UK_49S of
      Inr m \<Rightarrow> splits_of m 3 | Inl e \<Rightarrow> Inl e)
     = Inr [((8, 11, ''Diff''), 1), ((9, 12, ''Diff''), 1), ((10, 13, ''Diff''), 1)] \<and>
   (case analyze_patterns df4 [2, 3, 4, 5, 9] SA_DAILY of
      Inr p \<Rightarrow> top_targets_of p | Inl e \<Rightarrow> []) = [3, 4, 5, 6, 2, 7] \<and>
   most_common 3 [(1 :: int, 1), (2, 3), (3, 1), (4, 3), (5, 2)] = [(2, 3), (4, 3), (5, 2)] \<and>
   (\<exists>predictions split_stats.
     analyze_patterns dfB [1, 2, 3, 8, 9, 10, 99] UK_49S = Inr predictions \<and>
     map fst predictions = first_seen (seen_numbers dfB [1, 2, 3, 8, 9, 10, 99] UK_49S) \<and>
     distinct (map fst predictions) \<and>
     (\<forall>kc \<in> set predictions. snd kc = count_of predictions (fst kc)) \<and>
     mset (most_common (length predictions) predictions) = mset predictions \<and>
     sorted_wrt (\<lambda>x y. snd y \<le> snd x) (most_common (length predictions) predictions) \<and>
     (\<forall>v. filter (\<lambda>kc. snd kc = v) (most_common (length predictions) predictions)
            = filter (\<lambda>kc. snd kc = v) predictions) \<and>
     top_targets_of predictions
       = map fst (take 7 (most_common (length predictions) predictions)) \<and>
     analyze_splits dfB [1, 2, 3, 8, 9, 10, 99] [3] UK_49S = Inr split_stats \<and>
     (\<forall>t \<in> set [3]. \<exists>c.
        split_stats t = Some c \<and>
        map fst c = first_seen (seen_keys dfB [1, 2, 3, 8, 9, 10, 99] UK_49S t) \<and>
        distinct (map fst c) \<and>
        (\<forall>kc \<in> set c. snd kc = count_of c (fst kc)) \<and>
        mset (most_common (length c) c) = mset c \<and>
        sorted_wrt (\<lambda>x y. snd y \<le> snd x) (most_common (length c) c) \<and>
        (\<forall>v. filter (\<lambda>kc. snd kc = v) (most_common (length c) c)
               = filter (\<lambda>kc. snd kc = v) c) \<and>
        splits_of split_stats t = Inr (take 3 (most_common (length c) c))))"
proof -
  have h1: "has_cols dfB UK_49S" by code_simp
  have e1: "analyze_patterns dfB [1, 2, 3, 8, 9, 10, 99] UK_49S
     = Inr [(8, 1), (9, 1), (10, 1), (11, 1), (12, 1), (13, 1),
            (15, 1), (16, 1), (17, 1), (18, 1), (19, 1), (20, 1)]" by code_simp
  have e2: "(case analyze_patterns dfB [1, 2, 3, 8, 9, 10, 99] UK_49S of
      Inr p \<Rightarrow> top_targets_of p | Inl e \<Rightarrow> []) = [8, 9, 10, 11, 12, 13, 15]" by code_simp
  have e3: "(case analyze_splits dfB [1, 2, 3, 8, 9, 10, 99] [3] UK_49S of
      Inr m \<Rightarrow> m 3 | Inl e \<Rightarrow> None)
     = Some [((8, 11, ''Diff''), 1), ((9, 12, ''Diff''), 1), ((10, 13, ''Diff''), 1),
             ((15, 18, ''Diff''), 1), ((16, 19, ''Diff''), 1), ((17, 20, ''Diff''), 1)]"
    by code_simp
  have e4: "(case analyze_splits dfB [1, 2, 3, 8, 9, 10, 99] [3] UK_49S of
      Inr m \<Rightarrow> splits_of m 3 | Inl e \<Rightarrow> Inl e)
     = Inr [((8, 11, ''Diff''), 1), ((9, 12, ''Diff''), 1), ((10, 13, ''Diff''), 1)]"
    by code_simp
  have e5: "(case analyze_patterns df4 [2, 3, 4, 5, 9] SA_DAILY of
      Inr p \<Rightarrow> top_targets_of p | Inl e \<Rightarrow> []) = [3, 4, 5, 6, 2, 7]" by code_simp
  have e6: "most_common 3 [(1 :: int, 1), (2, 3), (3, 1), (4, 3), (5, 2)]
     = [(2, 3), (4, 3), (5, 2)]" by code_simp
  from ranked_outputs [OF h1, of "[1, 2, 3, 8, 9, 10, 99]" "[3]"] h1 e1 e2 e3 e4 e5 e6
  show ?thesis by blast
qed

end
